theory Spec2Isabelle
  imports Main "HOL-Library.Stream"
begin

section \<open>The HDA client of \<^verbatim>\<open>hda_api_functions\<close>: API key\<close>

text \<open>
  Python strings are modelled by \<^typ>\<open>string\<close>, a list of 8-bit characters: a
  \<^verbatim>\<open>str\<close> is identified with the bytes \<^verbatim>\<open>str.encode\<close> gives for it,
  and \<^verbatim>\<open>bytes.decode\<close> is the identity on the ASCII output of Base64.
\<close>

subsection \<open>\<^verbatim>\<open>base64.b64encode\<close> (standard alphabet, RFC 4648)\<close>

definition b64_alphabet :: string where
  "b64_alphabet =
     ''ABCDEFGHIJKLMNOPQRSTUVWXYZabcdefghijklmnopqrstuvwxyz0123456789+/''"

definition b64_char :: "nat \<Rightarrow> char" where
  "b64_char n = b64_alphabet ! (n mod 64)"

text \<open>
  Three bytes give four sextets; a final group of one or two bytes is padded
  with \<^verbatim>\<open>=\<close>.
\<close>

fun b64_groups :: "nat list \<Rightarrow> string" where
  "b64_groups (a # b # c # rest) =
     b64_char (a div 4) # b64_char ((a mod 4) * 16 + b div 16)
       # b64_char ((b mod 16) * 4 + c div 64) # b64_char (c mod 64)
       # b64_groups rest"
| "b64_groups [a, b] =
     [b64_char (a div 4), b64_char ((a mod 4) * 16 + b div 16),
      b64_char ((b mod 16) * 4), CHR ''='']"
| "b64_groups [a] =
     [b64_char (a div 4), b64_char ((a mod 4) * 16), CHR ''='', CHR ''='']"
| "b64_groups [] = []"

definition b64encode :: "string \<Rightarrow> string" where
  "b64encode s = b64_groups (map of_char s)"

text \<open>
  \<^verbatim>\<open>
  def generate_api_key(username, password):
      s = username+':'+password
      return (base64.b64encode(str.encode(s), altchars=None)).decode()
  \<close>
\<close>

definition generate_api_key :: "string \<Rightarrow> string \<Rightarrow> string" where
  "generate_api_key username password =
     (let s = username @ '':'' @ password in b64encode s)"

subsection \<open>\<^verbatim>\<open>base64.b64decode\<close>, the inverse the key is read back with\<close>

fun index_of :: "'a \<Rightarrow> 'a list \<Rightarrow> nat option" where
  "index_of x [] = None"
| "index_of x (y # ys) =
     (if x = y then Some 0 else map_option Suc (index_of x ys))"

definition b64_index :: "char \<Rightarrow> nat option" where
  "b64_index c = index_of c b64_alphabet"

definition byte :: "nat \<Rightarrow> char" where
  "byte n = char_of n"

text \<open>
  Decoding reads four characters at a time; padding is accepted in the last
  group only, and any character outside the alphabet is an error
  (\<open>None\<close>).
\<close>

fun b64decode :: "string \<Rightarrow> string option" where
  "b64decode [] = Some []"
| "b64decode [p, q, r, s] =
     (case (b64_index p, b64_index q) of
        (Some i, Some j) \<Rightarrow>
          (if r = CHR ''='' \<and> s = CHR ''='' then
             (if j mod 16 = 0 then Some [byte (i * 4 + j div 16)] else None)
           else
             (case b64_index r of
                None \<Rightarrow> None
              | Some k \<Rightarrow>
                  (if s = CHR ''='' then
                     (if k mod 4 = 0 then
                        Some [byte (i * 4 + j div 16),
                              byte ((j mod 16) * 16 + k div 4)]
                      else None)
                   else
                     (case b64_index s of
                        None \<Rightarrow> None
                      | Some l \<Rightarrow>
                          Some [byte (i * 4 + j div 16),
                                byte ((j mod 16) * 16 + k div 4),
                                byte ((k mod 4) * 64 + l)]))))
      | _ \<Rightarrow> None)"
| "b64decode (p # q # r # s # rest) =
     (case (b64_index p, b64_index q, b64_index r, b64_index s) of
        (Some i, Some j, Some k, Some l) \<Rightarrow>
          map_option
            (\<lambda>tl. byte (i * 4 + j div 16) # byte ((j mod 16) * 16 + k div 4)
                     # byte ((k mod 4) * 64 + l) # tl)
            (b64decode rest)
      | _ \<Rightarrow> None)"
| "b64decode _ = None"


section \<open>Python values, HTTP responses and the session dictionary\<close>

text \<open>
  \<open>pyval\<close> are the values \<^verbatim>\<open>json.loads\<close> produces and the client stores:
  \<^verbatim>\<open>None\<close>, booleans, integers, strings, lists and dictionaries with string
  keys (an association list, looked up from the front). JSON numbers are
  integers here.
\<close>

datatype pyval =
    PNone
  | PBool bool
  | PInt int
  | PStr string
  | PList "pyval list"
  | PDict "(string \<times> pyval) list"

text \<open>
  A \<^verbatim>\<open>requests.Response\<close>: its \<^verbatim>\<open>status_code\<close>, the value of
  \<^verbatim>\<open>json.loads(response.text)\<close> (\<open>None\<close> when the body is not a JSON
  document, where \<^verbatim>\<open>json.loads\<close> raises), and the chunks
  \<^verbatim>\<open>iter_content\<close> delivers.
\<close>

record response =
  status_code :: int
  json_text :: "pyval option"
  iter_content :: "string list"

datatype obj = Val pyval | Resp response

type_synonym hda_dict = "string \<rightharpoonup> obj"

datatype py_error =
    KeyError string
  | TypeError
  | IndexError
  | UnboundLocalError string
  | ZeroDivisionError
  | JSONDecodeError
  | MissingSchema

definition bind_e :: "py_error + 'a \<Rightarrow> ('a \<Rightarrow> py_error + 'b) \<Rightarrow> py_error + 'b" where
  "bind_e m f = (case m of Inl e \<Rightarrow> Inl e | Inr x \<Rightarrow> f x)"

text \<open>\<^verbatim>\<open>hda_dict[k]\<close>\<close>

definition getitem :: "hda_dict \<Rightarrow> string \<Rightarrow> py_error + obj" where
  "getitem d k = (case d k of None \<Rightarrow> Inl (KeyError k) | Some v \<Rightarrow> Inr v)"

text \<open>\<^verbatim>\<open>v[k]\<close> with a string \<open>k\<close>: only a dictionary accepts it.\<close>

fun subscript :: "pyval \<Rightarrow> string \<Rightarrow> py_error + pyval" where
  "subscript (PDict kvs) k =
     (case map_of kvs k of None \<Rightarrow> Inl (KeyError k) | Some v \<Rightarrow> Inr v)"
| "subscript _ k = Inl TypeError"

fun subscript_obj :: "obj \<Rightarrow> string \<Rightarrow> py_error + pyval" where
  "subscript_obj (Val v) k = subscript v k"
| "subscript_obj (Resp r) k = Inl TypeError"

text \<open>The right operand of \<^verbatim>\<open>'...' + x\<close> must be a \<^verbatim>\<open>str\<close>.\<close>

fun as_str :: "obj \<Rightarrow> py_error + string" where
  "as_str (Val (PStr s)) = Inr s"
| "as_str _ = Inl TypeError"

text \<open>A URL handed to \<^verbatim>\<open>requests\<close> as it is; a value that is no string has no scheme.\<close>

fun as_url :: "obj \<Rightarrow> py_error + string" where
  "as_url (Val (PStr s)) = Inr s"
| "as_url _ = Inl MissingSchema"

text \<open>A \<^verbatim>\<open>json=\<close> payload member must be serialisable.\<close>

fun as_val :: "obj \<Rightarrow> py_error + pyval" where
  "as_val (Val v) = Inr v"
| "as_val (Resp r) = Inl TypeError"

text \<open>An operand of \<^verbatim>\<open>/\<close>: an \<^verbatim>\<open>int\<close>, or a \<^verbatim>\<open>bool\<close> counting as 0 or 1.\<close>

fun as_number :: "pyval \<Rightarrow> py_error + int" where
  "as_number (PInt n) = Inr n"
| "as_number (PBool b) = Inr (if b then 1 else 0)"
| "as_number _ = Inl TypeError"

text \<open>\<^verbatim>\<open>response.status_code == hda_dict["CONST_HTTP_SUCCESS_CODE"]\<close>\<close>

fun status_eq :: "int \<Rightarrow> obj \<Rightarrow> bool" where
  "status_eq c (Val (PInt n)) = (c = n)"
| "status_eq c (Val (PBool b)) = (c = (if b then 1 else 0))"
| "status_eq c _ = False"

text \<open>\<^verbatim>\<open>json.loads(response.text)\<close>\<close>

definition loads :: "response \<Rightarrow> py_error + pyval" where
  "loads r = (case json_text r of None \<Rightarrow> Inl JSONDecodeError | Some v \<Rightarrow> Inr v)"

text \<open>\<^verbatim>\<open>xs[i]\<close> on a list, negative indices counting from the end.\<close>

definition py_index :: "'a list \<Rightarrow> int \<Rightarrow> py_error + 'a" where
  "py_index xs i =
     (if 0 \<le> i \<and> i < int (length xs) then Inr (xs ! nat i)
      else if i < 0 \<and> - int (length xs) \<le> i then Inr (xs ! nat (int (length xs) + i))
      else Inl IndexError)"

text \<open>\<^verbatim>\<open>for x in v\<close>: the elements of a list, the keys of a dictionary, the characters of a string.\<close>

fun iterate :: "pyval \<Rightarrow> py_error + pyval list" where
  "iterate (PList xs) = Inr xs"
| "iterate (PDict kvs) = Inr (map (\<lambda>kv. PStr (fst kv)) kvs)"
| "iterate (PStr s) = Inr (map (\<lambda>c. PStr [c]) s)"
| "iterate _ = Inl TypeError"

section \<open>The world outside the client\<close>

text \<open>
  The broker is a stream of replies, the next request taking the next reply
  (transport failures are not modelled: every request is answered). The
  process clock is a stream of readings in ticks. The trace records, in order,
  the requests sent, the sleeps, and the progress lines \<^verbatim>\<open>downloadFile\<close>
  prints; other console output is not recorded. The file system maps a path
  to the bytes of the file there; directories are taken to exist.
\<close>

datatype meth = GET | PUT | POST

datatype event =
    Request meth string obj "pyval option"
  | Sleep nat
  | Progress int int
  | Downloaded int

record world =
  replies :: "response stream"
  clock :: "int stream"
  trace :: "event list"
  files :: "string \<rightharpoonup> string"

definition log :: "event \<Rightarrow> world \<Rightarrow> world" where
  "log e w = w\<lparr>trace := trace w @ [e]\<rparr>"

definition request :: "meth \<Rightarrow> string \<Rightarrow> obj \<Rightarrow> pyval option \<Rightarrow> world \<Rightarrow> response \<times> world" where
  "request m url headers payload w =
     (shd (replies w),
      w\<lparr>replies := stl (replies w), trace := trace w @ [Request m url headers payload]\<rparr>)"

definition sleep :: "nat \<Rightarrow> world \<Rightarrow> world" where
  "sleep n w = log (Sleep n) w"

definition process_time :: "world \<Rightarrow> int \<times> world" where
  "process_time w = (shd (clock w), w\<lparr>clock := stl (clock w)\<rparr>)"

definition fopen_wb :: "string \<Rightarrow> world \<Rightarrow> world" where
  "fopen_wb path w = w\<lparr>files := (files w)(path \<mapsto> [])\<rparr>"

definition fwrite :: "string \<Rightarrow> string \<Rightarrow> world \<Rightarrow> world" where
  "fwrite path chunk w =
     w\<lparr>files := (files w)(path \<mapsto> (case files w path of None \<Rightarrow> chunk | Some c \<Rightarrow> c @ chunk))\<rparr>"

section \<open>The client functions\<close>

subsection \<open>\<^verbatim>\<open>init\<close>\<close>

text \<open>
  The dictionary \<^verbatim>\<open>init\<close> returns. It also creates the download directory
  when that is missing, which has no counterpart here.
\<close>

definition broker_address :: string where
  "broker_address = ''https://wekeo-broker.apps.mercator.dpi.wekeo.eu/databroker''"

definition init :: "string \<Rightarrow> string \<Rightarrow> string \<Rightarrow> hda_dict" where
  "init dataset_id api_key download_dir_path =
     [''broker_endpoint'' \<mapsto> Val (PStr broker_address),
      ''acceptTandC_address'' \<mapsto>
         Val (PStr (broker_address @ ''/termsaccepted/Copernicus_General_License'')),
      ''accessToken_address'' \<mapsto> Val (PStr (broker_address @ ''/gettoken'')),
      ''dataset_id'' \<mapsto> Val (PStr dataset_id),
      ''api_key'' \<mapsto> Val (PStr api_key),
      ''CONST_HTTP_SUCCESS_CODE'' \<mapsto> Val (PInt 200),
      ''download_dir_path'' \<mapsto> Val (PStr download_dir_path)]"

subsection \<open>\<^verbatim>\<open>get_access_token\<close>\<close>

text \<open>
  The local \<^verbatim>\<open>access_token\<close> is bound in the success branch only; the
  assignment after the \<^verbatim>\<open>if\<close> reads it in both.
\<close>

definition token_of_response :: "hda_dict \<Rightarrow> response \<Rightarrow> py_error + pyval option" where
  "token_of_response d response =
     bind_e (getitem d ''CONST_HTTP_SUCCESS_CODE'') (\<lambda>code.
       if status_eq (status_code response) code then
         bind_e (loads response) (\<lambda>j.
         bind_e (subscript j ''access_token'') (\<lambda>access_token.
         bind_e (as_str (Val access_token)) (\<lambda>_. Inr (Some access_token))))
       else Inr None)"

definition get_access_token :: "hda_dict \<Rightarrow> world \<Rightarrow> (py_error + unit) \<times> hda_dict \<times> world" where
  "get_access_token d w =
     (case bind_e (getitem d ''api_key'') as_str of
        Inl e \<Rightarrow> (Inl e, d, w)
      | Inr api_key \<Rightarrow>
          (let headers = Val (PDict [(''Authorization'', PStr (''Basic '' @ api_key))]) in
           case bind_e (getitem d ''accessToken_address'') as_url of
             Inl e \<Rightarrow> (Inl e, d, w)
           | Inr url \<Rightarrow>
               (let (response, w) = request GET url headers None w in
                case token_of_response d response of
                  Inl e \<Rightarrow> (Inl e, d, w)
                | Inr None \<Rightarrow> (Inl (UnboundLocalError ''access_token''), d, w)
                | Inr (Some access_token) \<Rightarrow>
                    (let d = d(''access_token'' \<mapsto> Val access_token) in
                     case bind_e (getitem d ''access_token'') as_str of
                       Inl e \<Rightarrow> (Inl e, d, w)
                     | Inr token \<Rightarrow>
                         (Inr (),
                          d(''headers'' \<mapsto>
                              Val (PDict [(''Authorization'', PStr (''Bearer '' @ token)),
                                          (''Accept'', PStr ''application/json'')])),
                          w)))))"

subsection \<open>\<^verbatim>\<open>acceptTandC\<close>\<close>

definition accepted_of :: "response \<Rightarrow> py_error + pyval" where
  "accepted_of response = bind_e (loads response) (\<lambda>j. subscript j ''accepted'')"

definition acceptTandC :: "hda_dict \<Rightarrow> world \<Rightarrow> (py_error + unit) \<times> hda_dict \<times> world" where
  "acceptTandC d w =
     (case bind_e (getitem d ''acceptTandC_address'') (\<lambda>address.
             bind_e (getitem d ''headers'') (\<lambda>headers.
             bind_e (as_url address) (\<lambda>url. Inr (url, headers)))) of
        Inl e \<Rightarrow> (Inl e, d, w)
      | Inr (url, headers) \<Rightarrow>
          (let (response, w) = request GET url headers None w in
           case accepted_of response of
             Inl e \<Rightarrow> (Inl e, d, w)
           | Inr isTandCAccepted \<Rightarrow>
               (let (response, w) =
                      (if isTandCAccepted = PBool False
                       then request PUT url headers None w
                       else (response, w)) in
                case accepted_of response of
                  Inl e \<Rightarrow> (Inl e, d, w)
                | Inr isTandCAccepted \<Rightarrow>
                    (Inr (), d(''isTandCAccepted'' \<mapsto> Val isTandCAccepted), w))))"

subsection \<open>The polling loop of \<^verbatim>\<open>get_request_status\<close> and \<^verbatim>\<open>get_order_status\<close>\<close>

text \<open>
  Both functions run the same \<^verbatim>\<open>while (status != "completed")\<close> loop and
  differ in the URL they poll. The dictionary is not changed inside the loop,
  so the URL and the headers an iteration evaluates are the same each time:
  \<open>target\<close> is that evaluation, an error when it raises.

  \<open>read_status\<close> is the body after the request: on the success code the new
  status is read from the reply (and concatenated to the message printed, which
  needs a string); on any other code \<open>status\<close> is left as it was.
\<close>

definition read_status :: "hda_dict \<Rightarrow> response \<Rightarrow> pyval \<Rightarrow> py_error + pyval" where
  "read_status d response status =
     bind_e (getitem d ''CONST_HTTP_SUCCESS_CODE'') (\<lambda>code.
       if status_eq (status_code response) code then
         bind_e (loads response) (\<lambda>j.
         bind_e (subscript j ''status'') (\<lambda>status.
         bind_e (as_str (Val status)) (\<lambda>_. Inr status)))
       else Inr status)"

partial_function (option) poll_loop ::
  "(py_error + string \<times> obj) \<Rightarrow> hda_dict \<Rightarrow> pyval \<Rightarrow> int \<Rightarrow> response option \<Rightarrow> world
     \<Rightarrow> ((py_error + response option) \<times> world) option"
where
  "poll_loop target d status count resp w =
     (if status \<noteq> PStr ''completed'' then
        (let count = count + 1;
             w = (if count > 20 then sleep 5 w else w) in
         case target of
           Inl e \<Rightarrow> Some (Inl e, w)
         | Inr (url, headers) \<Rightarrow>
             (let (response, w) = request GET url headers None w in
              case read_status d response status of
                Inl e \<Rightarrow> Some (Inl e, w)
              | Inr status \<Rightarrow> poll_loop target d status count (Some response) w))
      else Some (Inr resp, w))"

definition request_status_target :: "hda_dict \<Rightarrow> py_error + string \<times> obj" where
  "request_status_target d =
     bind_e (bind_e (getitem d ''broker_endpoint'') as_str) (\<lambda>broker.
     bind_e (bind_e (getitem d ''job_id'') as_str) (\<lambda>job_id.
     bind_e (getitem d ''headers'') (\<lambda>headers.
       Inr (broker @ ''/datarequest/status/'' @ job_id, headers))))"

definition get_request_status :: "hda_dict \<Rightarrow> world \<Rightarrow> ((py_error + unit) \<times> world) option" where
  "get_request_status d w =
     (case poll_loop (request_status_target d) d (PStr ''not started'') 0 None w of
        None \<Rightarrow> None
      | Some (Inl e, w) \<Rightarrow> Some (Inl e, w)
      | Some (Inr _, w) \<Rightarrow> Some (Inr (), w))"

definition order_status_target :: "hda_dict \<Rightarrow> pyval \<Rightarrow> py_error + string \<times> obj" where
  "order_status_target d order_id =
     bind_e (bind_e (getitem d ''broker_endpoint'') as_str) (\<lambda>broker.
     bind_e (as_str (Val order_id)) (\<lambda>order_id.
     bind_e (getitem d ''headers'') (\<lambda>headers.
       Inr (broker @ ''/dataorder/status/'' @ order_id, headers))))"

definition get_order_status ::
  "hda_dict \<Rightarrow> pyval \<Rightarrow> world \<Rightarrow> ((py_error + response) \<times> world) option" where
  "get_order_status d order_id w =
     (case poll_loop (order_status_target d order_id) d (PStr ''not started'') 0 None w of
        None \<Rightarrow> None
      | Some (Inl e, w) \<Rightarrow> Some (Inl e, w)
      | Some (Inr None, w) \<Rightarrow> Some (Inl (UnboundLocalError ''response''), w)
      | Some (Inr (Some response), w) \<Rightarrow> Some (Inr response, w))"

subsection \<open>\<^verbatim>\<open>get_job_id\<close>\<close>

definition job_id_of_response :: "hda_dict \<Rightarrow> response \<Rightarrow> py_error + pyval" where
  "job_id_of_response d response =
     bind_e (getitem d ''CONST_HTTP_SUCCESS_CODE'') (\<lambda>code.
       if status_eq (status_code response) code then
         bind_e (loads response) (\<lambda>j.
         bind_e (subscript j ''jobId'') (\<lambda>job_id.
         bind_e (as_str (Val job_id)) (\<lambda>_. Inr job_id)))
       else Inr (PStr []))"

definition get_job_id ::
  "hda_dict \<Rightarrow> pyval \<Rightarrow> world \<Rightarrow> ((py_error + unit) \<times> hda_dict \<times> world) option" where
  "get_job_id d data w =
     (case bind_e (bind_e (getitem d ''broker_endpoint'') as_str) (\<lambda>broker.
             bind_e (getitem d ''headers'') (\<lambda>headers.
               Inr (broker @ ''/datarequest'', headers))) of
        Inl e \<Rightarrow> Some (Inl e, d, w)
      | Inr (url, headers) \<Rightarrow>
          (let (response, w) = request POST url headers (Some data) w in
           case job_id_of_response d response of
             Inl e \<Rightarrow> Some (Inl e, d, w)
           | Inr job_id \<Rightarrow>
               (let d = d(''job_id'' \<mapsto> Val job_id) in
                case get_request_status d w of
                  None \<Rightarrow> None
                | Some (Inl e, w) \<Rightarrow> Some (Inl e, d, w)
                | Some (Inr _, w) \<Rightarrow> Some (Inr (), d, w))))"

subsection \<open>\<^verbatim>\<open>get_order_ids\<close>\<close>

text \<open>
  The \<^verbatim>\<open>for\<close> loop, with the locals \<^verbatim>\<open>i\<close>, \<^verbatim>\<open>order_ids\<close>,
  \<^verbatim>\<open>order_sizes\<close> and \<^verbatim>\<open>response\<close> (unbound before the first
  request). \<open>order_request\<close> is what an iteration evaluates before it posts:
  the payload, the size appended to \<^verbatim>\<open>order_sizes\<close>, the URL and the headers.
\<close>

definition order_request ::
  "hda_dict \<Rightarrow> pyval \<Rightarrow> py_error + pyval \<times> pyval \<times> string \<times> obj" where
  "order_request d result =
     bind_e (getitem d ''job_id'') (\<lambda>job_id.
     bind_e (subscript result ''url'') (\<lambda>uri.
     bind_e (subscript result ''size'') (\<lambda>sz.
     bind_e (bind_e (getitem d ''broker_endpoint'') as_str) (\<lambda>broker.
     bind_e (getitem d ''headers'') (\<lambda>headers.
     bind_e (as_val job_id) (\<lambda>job_id.
       Inr (PDict [(''jobId'', job_id), (''uri'', uri)], sz,
            broker @ ''/dataorder'', headers)))))))"

fun order_loop ::
  "hda_dict \<Rightarrow> pyval list \<Rightarrow> int \<Rightarrow> pyval list \<Rightarrow> pyval list \<Rightarrow> response option \<Rightarrow> world
     \<Rightarrow> ((py_error + pyval list \<times> pyval list \<times> response option) \<times> world) option"
where
  "order_loop d [] i order_ids order_sizes response w =
     Some (Inr (order_ids, order_sizes, response), w)"
| "order_loop d (result # results) i order_ids order_sizes response w =
     (case order_request d result of
        Inl e \<Rightarrow> Some (Inl e, w)
      | Inr (data, sz, url, headers) \<Rightarrow>
          (let order_sizes = order_sizes @ [sz];
               (response, w) = request POST url headers (Some data) w in
           case getitem d ''CONST_HTTP_SUCCESS_CODE'' of
             Inl e \<Rightarrow> Some (Inl e, w)
           | Inr code \<Rightarrow>
               if status_eq (status_code response) code then
                 (case bind_e (loads response) (\<lambda>j. subscript j ''orderId'') of
                    Inl e \<Rightarrow> Some (Inl e, w)
                  | Inr order_id \<Rightarrow>
                      (let order_ids = order_ids @ [order_id] in
                       case bind_e (py_index order_ids i) (\<lambda>x.
                              bind_e (as_str (Val x)) (\<lambda>_. py_index order_ids i)) of
                         Inl e \<Rightarrow> Some (Inl e, w)
                       | Inr x \<Rightarrow>
                           (case get_order_status d x w of
                              None \<Rightarrow> None
                            | Some (Inl e, w) \<Rightarrow> Some (Inl e, w)
                            | Some (Inr response, w) \<Rightarrow>
                                order_loop d results (i + 1) order_ids order_sizes
                                  (Some response) w)))
               else
                 order_loop d results (i + 1) order_ids order_sizes (Some response) w))"

definition get_order_ids ::
  "hda_dict \<Rightarrow> world \<Rightarrow> ((py_error + unit) \<times> hda_dict \<times> world) option" where
  "get_order_ids d w =
     (case bind_e (bind_e (getitem d ''results'') (\<lambda>r. subscript_obj r ''content'')) iterate of
        Inl e \<Rightarrow> Some (Inl e, d, w)
      | Inr results \<Rightarrow>
          (case order_loop d results 0 [] [] None w of
             None \<Rightarrow> None
           | Some (Inl e, w) \<Rightarrow> Some (Inl e, d, w)
           | Some (Inr (order_ids, order_sizes, response), w) \<Rightarrow>
               (let d = d(''order_ids'' \<mapsto> Val (PList order_ids));
                    d = d(''order_sizes'' \<mapsto> Val (PList order_sizes)) in
                case response of
                  None \<Rightarrow> Some (Inl (UnboundLocalError ''response''), d, w)
                | Some response \<Rightarrow>
                    Some (Inr (), d(''order_status_response'' \<mapsto> Resp response), w))))"

subsection \<open>\<^verbatim>\<open>downloadFile\<close>\<close>

text \<open>\<^verbatim>\<open>os.path.join(directory, file_name)\<close> on POSIX paths.\<close>

definition path_join :: "string \<Rightarrow> string \<Rightarrow> string" where
  "path_join a b =
     (if b \<noteq> [] \<and> hd b = CHR ''/'' then b
      else if a = [] \<or> last a = CHR ''/'' then a @ b
      else a @ ''/'' @ b)"

text \<open>
  \<^verbatim>\<open>int(a / b)\<close> for a nonzero \<open>b\<close>: the quotient truncated towards zero
  (the rounding of the float quotient is not modelled; the value is only
  printed).
\<close>

definition int_quot :: "int \<Rightarrow> int \<Rightarrow> int" where
  "int_quot a b = sgn a * sgn b * (\<bar>a\<bar> div \<bar>b\<bar>)"

text \<open>
  A line printed inside \<^verbatim>\<open>try: ... except: pass\<close> divides by the time
  elapsed since \<open>start\<close>: with no time elapsed the division raises and nothing
  is printed.
\<close>

definition try_print :: "int \<Rightarrow> event \<Rightarrow> world \<Rightarrow> world" where
  "try_print start e w =
     (let (t, w) = process_time w in if t - start = 0 then w else log e w)"

text \<open>The loop \<^verbatim>\<open>for chunk in r.iter_content(64738)\<close>, with the local \<^verbatim>\<open>dl\<close>.\<close>

fun write_chunks ::
  "string \<Rightarrow> int \<Rightarrow> pyval \<Rightarrow> string list \<Rightarrow> int \<Rightarrow> world \<Rightarrow> (py_error + int) \<times> world"
where
  "write_chunks filename start total_length [] dl w = (Inr dl, w)"
| "write_chunks filename start total_length (chunk # rest) dl w =
     (let dl = dl + int (length chunk);
          w = fwrite filename chunk w in
      if total_length \<noteq> PNone then
        (case bind_e (as_number total_length) (\<lambda>n.
                if n = 0 then Inl ZeroDivisionError else Inr (int_quot (50 * dl) n)) of
           Inl e \<Rightarrow> (Inl e, w)
         | Inr ndone \<Rightarrow>
             write_chunks filename start total_length rest dl
               (try_print start (Progress ndone dl) w))
      else if dl mod 1024 = 0 then
        write_chunks filename start total_length rest dl
          (try_print start (Downloaded dl) w)
      else write_chunks filename start total_length rest dl w)"

definition downloadFile ::
  "string \<Rightarrow> obj \<Rightarrow> string \<Rightarrow> string \<Rightarrow> pyval \<Rightarrow> world \<Rightarrow> (py_error + pyval) \<times> world" where
  "downloadFile url headers directory file_name total_length w =
     (let (r, w) = request GET url headers None w in
      if status_code r = 200 then
        (let filename = path_join directory file_name;
             w = fopen_wb filename w;
             (start, w) = process_time w in
         case as_number total_length of
           Inl e \<Rightarrow> (Inl e, w)
         | Inr _ \<Rightarrow>
             (case write_chunks filename start total_length (iter_content r) 0 w of
                (Inl e, w) \<Rightarrow> (Inl e, w)
              | (Inr dl, w) \<Rightarrow>
                  (let w = try_print start (Downloaded dl) w;
                       (t, w) = process_time w in
                   (Inr (PInt (t - start)), w))))
      else (Inr PNone, w))"

section \<open>Observations on a trace, and scenarios\<close>

text \<open>The cumulative byte counts \<^verbatim>\<open>downloadFile\<close> reports, in the order printed.\<close>

fun reported :: "event list \<Rightarrow> int list" where
  "reported [] = []"
| "reported (Progress ndone dl # es) = dl # reported es"
| "reported (Downloaded dl # es) = dl # reported es"
| "reported (e # es) = reported es"

text \<open>The requests of one method among the events.\<close>

fun is_request :: "meth \<Rightarrow> event \<Rightarrow> bool" where
  "is_request m (Request m' url headers payload) = (m = m')"
| "is_request m e = False"

definition sent :: "meth \<Rightarrow> event list \<Rightarrow> nat" where
  "sent m es = length (filter (is_request m) es)"

text \<open>
  A scenario is a world at the start of a run: the broker answers with the
  replies listed and with \<open>r\<close> ever after, the clock advances one tick at
  each reading, nothing has happened, no file exists.
\<close>

definition reply :: "int \<Rightarrow> pyval option \<Rightarrow> response" where
  "reply c j = \<lparr>status_code = c, json_text = j, iter_content = []\<rparr>"

definition scenario :: "response list \<Rightarrow> response \<Rightarrow> world" where
  "scenario rs r =
     \<lparr>replies = rs @- sconst r, clock = siterate (\<lambda>t. t + 1) 0, trace = [], files = Map.empty\<rparr>"


definition stream_reply :: "string list \<Rightarrow> response" where
  "stream_reply chunks = \<lparr>status_code = 200, json_text = None, iter_content = chunks\<rparr>"


text \<open>
  The session after \<^verbatim>\<open>init\<close> and a successful \<^verbatim>\<open>get_access_token\<close>
  that was given the token \<^verbatim>\<open>tok\<close>.
\<close>

definition logged_in :: hda_dict where
  "logged_in =
     (init ''EO:EUM:DAT:SENTINEL-3:SR_1_SRA___'' ''dTpw'' ''data'')
       (''access_token'' \<mapsto> Val (PStr ''tok''),
        ''headers'' \<mapsto> Val (PDict [(''Authorization'', PStr ''Bearer tok''),
                                     (''Accept'', PStr ''application/json'')]))"

definition bearer :: obj where
  "bearer = Val (PDict [(''Authorization'', PStr ''Bearer tok''),
                         (''Accept'', PStr ''application/json'')])"

text \<open>The session after a job was submitted and given the id \<^verbatim>\<open>j1\<close>.\<close>

definition submitted :: hda_dict where
  "submitted = logged_in(''job_id'' \<mapsto> Val (PStr ''j1''))"

text \<open>Replies with status 200 and a one-member JSON object.\<close>

definition accepted_reply :: "bool \<Rightarrow> response" where
  "accepted_reply b = reply 200 (Some (PDict [(''accepted'', PBool b)]))"

definition status_reply :: "string \<Rightarrow> response" where
  "status_reply s = reply 200 (Some (PDict [(''status'', PStr s)]))"

definition order_reply :: "string \<Rightarrow> response" where
  "order_reply s = reply 200 (Some (PDict [(''orderId'', PStr s)]))"


subsection \<open>Replies of a status endpoint, and the polling policy\<close>

text \<open>
  What a status poll can be answered with: a reply \<open>completes\<close> when it has
  status 200 and its JSON document carries the status \<^verbatim>\<open>"completed"\<close>; it is
  \<open>pending\<close> when it has another HTTP status (an error reply), or status 200
  and any other string as its status (\<^verbatim>\<open>"running"\<close>, \<^verbatim>\<open>"failed"\<close>, ...).
\<close>

definition status_of :: "response \<Rightarrow> py_error + pyval" where
  "status_of r = bind_e (loads r) (\<lambda>j. subscript j ''status'')"

definition completes :: "response \<Rightarrow> bool" where
  "completes r \<longleftrightarrow> status_code r = 200 \<and> status_of r = Inr (PStr ''completed'')"

definition pending :: "response \<Rightarrow> bool" where
  "pending r \<longleftrightarrow>
     (if status_code r = 200
      then (case status_of r of Inr (PStr s) \<Rightarrow> s \<noteq> ''completed'' | _ \<Rightarrow> False)
      else True)"

text \<open>
  The policy in the words of the specification: the first 20 polls are sent
  at once, every later poll after a sleep of 5 seconds. \<open>polling url headers k n\<close>
  are the events of the \<open>n\<close> polls that follow the \<open>k\<close>-th.
\<close>

definition poll_events :: "string \<Rightarrow> obj \<Rightarrow> int \<Rightarrow> event list" where
  "poll_events url headers k =
     (if k > 20 then [Sleep 5] else []) @ [Request GET url headers None]"

fun polling :: "string \<Rightarrow> obj \<Rightarrow> int \<Rightarrow> nat \<Rightarrow> event list" where
  "polling url headers k 0 = []"
| "polling url headers k (Suc n) =
     poll_events url headers (k + 1) @ polling url headers (k + 1) n"

subsection \<open>An order endpoint that responds correctly\<close>

text \<open>
  The exchange for one result descriptor is the reply \<open>p\<close> to the order
  request and the replies \<open>qs\<close> to the status polls of that order. It is
  good when the descriptor has a \<^verbatim>\<open>url\<close> and a \<^verbatim>\<open>size\<close>, \<open>p\<close> has
  status 200 and carries a string \<^verbatim>\<open>orderId\<close>, and \<open>qs\<close> are pending
  replies followed by one that reports \<^verbatim>\<open>"completed"\<close>. \<open>serve xs rest\<close> is
  the stream of replies of the exchanges \<open>xs\<close> in order, then \<open>rest\<close>.
\<close>

definition order_id_of :: "response \<Rightarrow> py_error + pyval" where
  "order_id_of p = bind_e (loads p) (\<lambda>j. subscript j ''orderId'')"

definition order_id_in :: "response \<Rightarrow> pyval" where
  "order_id_in p = (case order_id_of p of Inr v \<Rightarrow> v | Inl e \<Rightarrow> PNone)"

definition size_in :: "pyval \<Rightarrow> pyval" where
  "size_in result = (case subscript result ''size'' of Inr v \<Rightarrow> v | Inl e \<Rightarrow> PNone)"

fun is_Inr :: "'a + 'b \<Rightarrow> bool" where
  "is_Inr (Inr x) = True"
| "is_Inr (Inl e) = False"

definition good_exchange :: "pyval \<Rightarrow> response \<times> response list \<Rightarrow> bool" where
  "good_exchange result x \<longleftrightarrow>
     is_Inr (subscript result ''url'') \<and> is_Inr (subscript result ''size'')
     \<and> status_code (fst x) = 200
     \<and> is_Inr (bind_e (order_id_of (fst x)) (\<lambda>v. as_str (Val v)))
     \<and> snd x \<noteq> [] \<and> list_all pending (butlast (snd x)) \<and> completes (last (snd x))"

fun serve :: "(response \<times> response list) list \<Rightarrow> response stream \<Rightarrow> response stream" where
  "serve [] rest = rest"
| "serve (x # xs) rest = fst x ## (snd x @- serve xs rest)"

text \<open>
  A results page with the descriptors given as (filename, size, url), and the
  session that holds it.
\<close>

definition descriptor :: "string \<Rightarrow> int \<Rightarrow> string \<Rightarrow> pyval" where
  "descriptor filename sz url =
     PDict [(''filename'', PStr filename), (''size'', PInt sz), (''url'', PStr url)]"

definition listed :: "pyval list \<Rightarrow> hda_dict" where
  "listed results =
     submitted(''results'' \<mapsto> Val (PDict [(''content'', PList results)]))"


section \<open>Properties of the API key\<close>

lemma index_of_nth:
  "distinct xs \<Longrightarrow> i < length xs \<Longrightarrow> index_of (xs ! i) xs = Some i"
proof (induction xs arbitrary: i)
  case Nil
  then show ?case by simp
next
  case (Cons y ys)
  show ?case
  proof (cases i)
    case 0
    then show ?thesis by simp
  next
    case (Suc j)
    with Cons.prems have "ys ! j \<noteq> y" "j < length ys" "distinct ys"
      by auto
    with Cons.IH [of j] Suc show ?thesis by simp
  qed
qed

lemma index_of_None: "x \<notin> set xs \<Longrightarrow> index_of x xs = None"
  by (induction xs) auto

lemma b64_alphabet_length: "length b64_alphabet = 64"
  by (simp add: b64_alphabet_def)

lemma b64_alphabet_distinct: "distinct b64_alphabet"
  by (simp add: b64_alphabet_def)

lemma b64_pad_not_in_alphabet: "CHR ''='' \<notin> set b64_alphabet"
  by (simp add: b64_alphabet_def)

lemma b64_index_char: "b64_index (b64_char n) = Some (n mod 64)"
  unfolding b64_index_def b64_char_def
  by (rule index_of_nth) (simp_all add: b64_alphabet_distinct b64_alphabet_length)

lemma b64_char_not_pad: "b64_char n \<noteq> CHR ''=''"
proof -
  have "b64_char n \<in> set b64_alphabet"
    unfolding b64_char_def by (rule nth_mem) (simp add: b64_alphabet_length)
  with b64_pad_not_in_alphabet show ?thesis by metis
qed

lemma b64_index_pad: "b64_index (CHR ''='') = None"
  unfolding b64_index_def by (rule index_of_None) (rule b64_pad_not_in_alphabet)

lemma b64decode_group:
  "b64decode (b64_char i # b64_char j # b64_char k # b64_char l # rest) =
     map_option
       (\<lambda>tl. byte ((i mod 64) * 4 + (j mod 64) div 16)
               # byte (((j mod 64) mod 16) * 16 + (k mod 64) div 4)
               # byte (((k mod 64) mod 4) * 64 + l mod 64) # tl)
       (b64decode rest)"
  by (cases rest) (simp_all add: b64_index_char b64_char_not_pad)


lemma sextet_a:
  "a < 256 \<Longrightarrow> b < 256 \<Longrightarrow>
     (a div 4 mod 64) * 4 + (((a mod 4) * 16 + b div 16) mod 64) div 16 = (a::nat)"
  by simp

lemma sextet_b:
  "b < 256 \<Longrightarrow> c < 256 \<Longrightarrow>
     ((((a mod 4) * 16 + b div 16) mod 64) mod 16) * 16
       + (((b mod 16) * 4 + c div 64) mod 64) div 4 = (b::nat)"
  by simp

lemma sextet_c:
  "c < 256 \<Longrightarrow>
     ((((b mod 16) * 4 + c div 64) mod 64) mod 4) * 64 + c mod 64 = (c::nat)"
  by simp

lemma sextet_b0:
  "a < 256 \<Longrightarrow> b < 256 \<Longrightarrow>
     (a mod 4 * 16 + b div 16) mod 64 mod 16 * 16 + b mod 16 = (b::nat)"
  by (simp add: mod_mod_cancel)

lemma b64decode_groups:
  "\<forall>x\<in>set bs. x < 256 \<Longrightarrow> b64decode (b64_groups bs) = Some (map byte bs)"
proof (induction bs rule: b64_groups.induct)
  case (1 a b c rest)
  then show ?case
    by (simp add: b64decode_group sextet_a sextet_b sextet_c)
next
  case (2 a b)
  then show ?case
    by (simp add: b64_index_char b64_char_not_pad sextet_a sextet_b0)
next
  case (3 a)
  then show ?case
    using sextet_a [of a 0]
    by (simp add: b64_index_char b64_char_not_pad)
next
  case 4
  then show ?case by simp
qed

lemma map_byte_of_char: "map byte (map of_char s) = s"
  by (simp add: byte_def comp_def)

lemma b64decode_b64encode: "b64decode (b64encode s) = Some s"
proof -
  have "\<forall>x\<in>set (map of_char s). x < (256::nat)"
    by simp
  then have "b64decode (b64_groups (map of_char s)) = Some (map byte (map of_char s))"
    by (rule b64decode_groups)
  then show ?thesis
    by (simp only: b64encode_def map_byte_of_char)
qed

text \<open>
  C9. \<^verbatim>\<open>generate_api_key\<close> is a function of the username and the password
  alone (it reads no state and sends no request), and Base64-decoding the key
  gives back the username, a colon and the password. Hence two keys are equal
  exactly when the strings \<^verbatim>\<open>username:password\<close> are.
\<close>

theorem generate_api_key_reversible:
  "b64decode (generate_api_key username password) = Some (username @ '':'' @ password)
   \<and> (generate_api_key username password = generate_api_key username' password'
        \<longleftrightarrow> username @ '':'' @ password = username' @ '':'' @ password')"
proof -
  have dec: "b64decode (generate_api_key u p) = Some (u @ '':'' @ p)" for u p
    by (simp add: generate_api_key_def b64decode_b64encode)
  have "username @ '':'' @ password = username' @ '':'' @ password'"
    if "generate_api_key username password = generate_api_key username' password'"
    using dec [of username password] dec [of username' password'] that by simp
  moreover have "generate_api_key username password = generate_api_key username' password'"
    if "username @ '':'' @ password = username' @ '':'' @ password'"
    using that by (simp add: generate_api_key_def)
  ultimately show ?thesis
    using dec by blast
qed

section \<open>Properties of \<^verbatim>\<open>downloadFile\<close>\<close>

lemma try_print_files: "files (try_print start e w) = files w"
  by (simp add: try_print_def process_time_def log_def split: prod.splits)

lemma try_print_trace:
  "trace (try_print start e w) = trace w \<or> trace (try_print start e w) = trace w @ [e]"
  by (simp add: try_print_def process_time_def log_def split: prod.splits)

lemma reported_append: "reported (es @ fs) = reported es @ reported fs"
  by (induction es rule: reported.induct) simp_all

lemma write_chunks_known:
  assumes "n \<noteq> 0" and "files w filename = Some old" and "0 \<le> dl"
  shows "\<exists>w' evs. write_chunks filename start (PInt n) cs dl w
             = (Inr (dl + int (length (concat cs))), w')
           \<and> files w' = (files w)(filename \<mapsto> old @ concat cs)
           \<and> trace w' = trace w @ evs
           \<and> sorted (reported evs)
           \<and> (\<forall>x\<in>set (reported evs). dl \<le> x \<and> x \<le> dl + int (length (concat cs)))"
  using assms
proof (induction cs arbitrary: dl w old)
  case Nil
  then show ?case by (auto intro: exI [of _ "[]"])
next
  case (Cons chunk rest)
  define dl' where "dl' = dl + int (length chunk)"
  define w1 where "w1 = try_print start (Progress (int_quot (50 * dl') n) dl') (fwrite filename chunk w)"
  have f1: "files w1 filename = Some (old @ chunk)"
    using Cons.prems by (simp add: w1_def try_print_files fwrite_def)
  have fs1: "files w1 = (files w)(filename \<mapsto> old @ chunk)"
    using Cons.prems by (simp add: w1_def try_print_files fwrite_def)
  have "0 \<le> dl'" using Cons.prems by (simp add: dl'_def)
  from Cons.IH [OF \<open>n \<noteq> 0\<close> f1 this]
  obtain w' evs where
    run: "write_chunks filename start (PInt n) rest dl' w1
            = (Inr (dl' + int (length (concat rest))), w')"
    and fs: "files w' = (files w1)(filename \<mapsto> (old @ chunk) @ concat rest)"
    and tr: "trace w' = trace w1 @ evs"
    and so: "sorted (reported evs)"
    and lb: "\<forall>x\<in>set (reported evs). dl' \<le> x \<and> x \<le> dl' + int (length (concat rest))"
    by blast
  have step: "write_chunks filename start (PInt n) (chunk # rest) dl w
      = write_chunks filename start (PInt n) rest dl' w1"
    using \<open>n \<noteq> 0\<close> by (simp add: bind_e_def dl'_def w1_def Let_def)
  have "trace (fwrite filename chunk w) = trace w"
    by (simp add: fwrite_def)
  with try_print_trace [of start "Progress (int_quot (50 * dl') n) dl'" "fwrite filename chunk w"]
  consider "trace w1 = trace w" | "trace w1 = trace w @ [Progress (int_quot (50 * dl') n) dl']"
    unfolding w1_def by auto
  then obtain evs1 where tr1: "trace w1 = trace w @ evs1"
    and ev1: "reported evs1 = [] \<or> reported evs1 = [dl']"
    by cases (auto intro: that [of "[]"])
  have "sorted (reported (evs1 @ evs))"
    "\<forall>x\<in>set (reported (evs1 @ evs)).
       dl \<le> x \<and> x \<le> dl + int (length (concat (chunk # rest)))"
    using ev1 so lb by (auto simp: reported_append dl'_def)
  moreover have "trace w' = trace w @ (evs1 @ evs)"
    using tr tr1 by simp
  moreover have "files w' = (files w)(filename \<mapsto> old @ concat (chunk # rest))"
    using fs fs1 by simp
  moreover have "write_chunks filename start (PInt n) (chunk # rest) dl w
      = (Inr (dl + int (length (concat (chunk # rest)))), w')"
    using step run by (simp add: dl'_def)
  ultimately show ?case by blast
qed

text \<open>
  C6. When the download request is answered with status 200 and the total
  length passed is an integer (nonzero as soon as the stream has a chunk),
  \<^verbatim>\<open>downloadFile\<close> returns the elapsed time, and the only change to the
  file system is the file \<^verbatim>\<open>os.path.join(directory, file_name)\<close>, which holds
  the concatenation of the chunks received: its length is the sum of the chunk
  lengths, the total length of the stream. The cumulative byte counts reported
  during the call are in non-decreasing order.
\<close>

theorem downloadFile_writes_stream:
  assumes "status_code (shd (replies w)) = 200"
    and "iter_content (shd (replies w)) \<noteq> [] \<longrightarrow> n \<noteq> 0"
  shows "\<exists>t w' evs.
           downloadFile url headers directory file_name (PInt n) w = (Inr (PInt t), w')
         \<and> files w' = (files w)(path_join directory file_name
                                  \<mapsto> concat (iter_content (shd (replies w))))
         \<and> length (concat (iter_content (shd (replies w))))
             = sum_list (map length (iter_content (shd (replies w))))
         \<and> trace w' = trace w @ Request GET url headers None # evs
         \<and> sorted (reported evs)"
proof -
  define r where "r = shd (replies w)"
  define filename where "filename = path_join directory file_name"
  define w1 where "w1 = snd (request GET url headers None w)"
  define w2 where "w2 = snd (process_time (fopen_wb filename w1))"
  define start where "start = fst (process_time (fopen_wb filename w1))"
  have f2: "files w2 filename = Some []"
    and fs2: "files w2 = (files w)(filename \<mapsto> [])"
    and tr2: "trace w2 = trace w @ [Request GET url headers None]"
    by (simp_all add: w2_def w1_def process_time_def fopen_wb_def request_def)
  have "\<exists>w3 evs. write_chunks filename start (PInt n) (iter_content r) 0 w2
             = (Inr (0 + int (length (concat (iter_content r)))), w3)
           \<and> files w3 = (files w2)(filename \<mapsto> [] @ concat (iter_content r))
           \<and> trace w3 = trace w2 @ evs
           \<and> sorted (reported evs)
           \<and> (\<forall>x\<in>set (reported evs).
                 0 \<le> x \<and> x \<le> 0 + int (length (concat (iter_content r))))"
  proof (cases "iter_content r = []")
    case True
    then show ?thesis using fs2 by (auto intro: exI [of _ "[]"])
  next
    case False
    with assms(2) have "n \<noteq> 0" by (simp add: r_def)
    from write_chunks_known [OF this f2, where dl = 0 and cs = "iter_content r" and start = start]
    show ?thesis by simp
  qed
  then obtain w3 evs where
    run: "write_chunks filename start (PInt n) (iter_content r) 0 w2
            = (Inr (int (length (concat (iter_content r)))), w3)"
    and fs3: "files w3 = (files w2)(filename \<mapsto> concat (iter_content r))"
    and tr3: "trace w3 = trace w2 @ evs"
    and so: "sorted (reported evs)"
    and ub: "\<forall>x\<in>set (reported evs). x \<le> int (length (concat (iter_content r)))"
    by auto
  define w4 where "w4 = try_print start (Downloaded (int (length (concat (iter_content r))))) w3"
  define w5 where "w5 = snd (process_time w4)"
  define t where "t = fst (process_time w4)"
  have res: "downloadFile url headers directory file_name (PInt n) w = (Inr (PInt (t - start)), w5)"
    using assms(1) run
    by (simp add: downloadFile_def Let_def split_beta r_def filename_def w1_def w2_def
        start_def w4_def w5_def t_def request_def)
  have fs5: "files w5 = (files w)(filename \<mapsto> concat (iter_content r))"
    using fs3 fs2 by (simp add: w5_def w4_def process_time_def try_print_files)
  from try_print_trace [of start "Downloaded (int (length (concat (iter_content r))))" w3]
  obtain evs' where tr4: "trace w4 = trace w3 @ evs'"
    and ev4: "reported evs' = [] \<or> reported evs' = [int (length (concat (iter_content r)))]"
    unfolding w4_def by (auto intro: that [of "[]"])
  have tr5: "trace w5 = trace w @ Request GET url headers None # (evs @ evs')"
    using tr4 tr3 tr2 by (simp add: w5_def process_time_def)
  have "sorted (reported (evs @ evs'))"
    using so ev4 ub by (auto simp: reported_append sorted_append)
  with res fs5 tr5 show ?thesis
    unfolding r_def filename_def by (simp add: length_concat)
qed

theorem downloadFile_writes_stream_witness:
  "status_code (shd (replies (scenario [stream_reply [''ab'', ''cde'']] (reply 404 None)))) = 200
   \<and> (\<exists>t w'. downloadFile ''u'' (Val PNone) ''data'' ''f.nc'' (PInt 5)
                  (scenario [stream_reply [''ab'', ''cde'']] (reply 404 None)) = (Inr (PInt t), w')
        \<and> files w' ''data/f.nc'' = Some ''abcde'')"
proof -
  have h1: "status_code (shd (replies (scenario [stream_reply [''ab'', ''cde'']] (reply 404 None)))) = 200"
    by (simp add: scenario_def stream_reply_def)
  have h2: "iter_content (shd (replies (scenario [stream_reply [''ab'', ''cde'']] (reply 404 None)))) \<noteq> []
              \<longrightarrow> (5::int) \<noteq> 0"
    by simp
  from downloadFile_writes_stream [OF h1 h2, of "''u''" "Val PNone" "''data''" "''f.nc''"]
  obtain t w' where
    "downloadFile ''u'' (Val PNone) ''data'' ''f.nc'' (PInt 5)
       (scenario [stream_reply [''ab'', ''cde'']] (reply 404 None)) = (Inr (PInt t), w')"
    "files w' = (files (scenario [stream_reply [''ab'', ''cde'']] (reply 404 None)))
       (path_join ''data'' ''f.nc''
          \<mapsto> concat (iter_content (shd (replies (scenario [stream_reply [''ab'', ''cde'']] (reply 404 None))))))"
    by blast
  moreover have "path_join ''data'' ''f.nc'' = ''data/f.nc''"
    by (simp add: path_join_def)
  moreover have "concat (iter_content (shd (replies (scenario [stream_reply [''ab'', ''cde'']] (reply 404 None)))))
      = ''abcde''"
    by (simp add: scenario_def stream_reply_def)
  ultimately show ?thesis
    using h1 by auto
qed

text \<open>
  C10. When the download request is answered with any status other than 200,
  \<^verbatim>\<open>downloadFile\<close> returns \<^verbatim>\<open>None\<close>, the file system is as it was (no
  file is created, no byte written), and the request is all that happened.
\<close>

theorem downloadFile_not_200:
  assumes "status_code (shd (replies w)) \<noteq> 200"
  shows "fst (downloadFile url headers directory file_name total_length w) = Inr PNone
       \<and> files (snd (downloadFile url headers directory file_name total_length w)) = files w
       \<and> trace (snd (downloadFile url headers directory file_name total_length w))
           = trace w @ [Request GET url headers None]"
  using assms by (simp add: downloadFile_def request_def)

theorem downloadFile_not_200_witness:
  "status_code (shd (replies (scenario [] (reply 404 None)))) \<noteq> 200
   \<and> fst (downloadFile ''u'' (Val PNone) ''data'' ''f.nc'' (PInt 5) (scenario [] (reply 404 None))) = Inr PNone
   \<and> files (snd (downloadFile ''u'' (Val PNone) ''data'' ''f.nc'' (PInt 5) (scenario [] (reply 404 None)))) = Map.empty"
  using downloadFile_not_200 [of "scenario [] (reply 404 None)" "''u''" "Val PNone" "''data''" "''f.nc''" "PInt 5"]
  by (simp add: scenario_def reply_def)

section \<open>Properties of \<^verbatim>\<open>get_access_token\<close>\<close>

lemma poll_loop_no_target:
  "status \<noteq> PStr ''completed'' \<Longrightarrow> count < 20 \<Longrightarrow>
     poll_loop (Inl e) d status count resp w = Some (Inl e, w)"
  by (subst poll_loop.simps) simp

lemma acceptTandC_no_headers:
  "d ''headers'' = None \<Longrightarrow> \<exists>e. acceptTandC d w = (Inl e, d, w)"
  by (simp add: acceptTandC_def bind_e_def getitem_def split: sum.splits option.splits)

lemma get_job_id_no_headers:
  "d ''headers'' = None \<Longrightarrow> \<exists>e. get_job_id d data w = Some (Inl e, d, w)"
  by (simp add: get_job_id_def bind_e_def getitem_def split: sum.splits option.splits)

lemma request_status_target_no_headers:
  "d ''headers'' = None \<Longrightarrow> \<exists>e. request_status_target d = Inl e"
  by (simp add: request_status_target_def bind_e_def getitem_def
      split: sum.splits option.splits)

lemma get_request_status_no_headers:
  assumes "d ''headers'' = None"
  shows "\<exists>e. get_request_status d w = Some (Inl e, w)"
proof -
  from request_status_target_no_headers [of d] assms
  obtain e where "request_status_target d = Inl e" by blast
  then show ?thesis
    by (simp add: get_request_status_def poll_loop_no_target)
qed

text \<open>
  C8. When the token request is answered with a status other than the success
  code, \<^verbatim>\<open>get_access_token\<close> ends with \<^verbatim>\<open>UnboundLocalError\<close> at the
  assignment of \<^verbatim>\<open>access_token\<close>, after the one request, and the dictionary
  is the one it was given: neither \<^verbatim>\<open>access_token\<close> nor \<^verbatim>\<open>headers\<close>
  is set. In a session without \<^verbatim>\<open>headers\<close> the calls that follow
  (\<^verbatim>\<open>acceptTandC\<close>, \<^verbatim>\<open>get_job_id\<close>, \<^verbatim>\<open>get_request_status\<close>) raise
  before they send anything.
\<close>

theorem get_access_token_not_200:
  assumes "d ''api_key'' = Some (Val (PStr api_key))"
    and "d ''accessToken_address'' = Some (Val (PStr url))"
    and "d ''CONST_HTTP_SUCCESS_CODE'' = Some (Val (PInt 200))"
    and "status_code (shd (replies w)) \<noteq> 200"
  shows "get_access_token d w =
           (Inl (UnboundLocalError ''access_token''), d,
            snd (request GET url
                   (Val (PDict [(''Authorization'', PStr (''Basic '' @ api_key))])) None w))
       \<and> (d ''headers'' = None \<longrightarrow>
            (\<forall>w' data.
               (\<exists>e. acceptTandC d w' = (Inl e, d, w'))
             \<and> (\<exists>e. get_job_id d data w' = Some (Inl e, d, w'))
             \<and> (\<exists>e. get_request_status d w' = Some (Inl e, w'))))"
proof -
  have "token_of_response d (shd (replies w)) = Inr None"
    using assms by (simp add: token_of_response_def bind_e_def getitem_def)
  then have "get_access_token d w =
           (Inl (UnboundLocalError ''access_token''), d,
            snd (request GET url
                   (Val (PDict [(''Authorization'', PStr (''Basic '' @ api_key))])) None w))"
    using assms by (simp add: get_access_token_def bind_e_def getitem_def request_def)
  then show ?thesis
    using acceptTandC_no_headers get_job_id_no_headers get_request_status_no_headers
    by blast
qed

theorem get_access_token_not_200_witness:
  "get_access_token (init ''ds'' ''dTpw'' ''data'') (scenario [] (reply 401 None)) =
     (Inl (UnboundLocalError ''access_token''), init ''ds'' ''dTpw'' ''data'',
      snd (request GET (broker_address @ ''/gettoken'')
             (Val (PDict [(''Authorization'', PStr ''Basic dTpw'')])) None
             (scenario [] (reply 401 None))))
   \<and> init ''ds'' ''dTpw'' ''data'' ''access_token'' = None
   \<and> init ''ds'' ''dTpw'' ''data'' ''headers'' = None
   \<and> (\<exists>e. acceptTandC (init ''ds'' ''dTpw'' ''data'') (scenario [] (reply 401 None))
          = (Inl e, init ''ds'' ''dTpw'' ''data'', scenario [] (reply 401 None)))"
proof -
  have k: "init ''ds'' ''dTpw'' ''data'' ''api_key'' = Some (Val (PStr ''dTpw''))"
    and a: "init ''ds'' ''dTpw'' ''data'' ''accessToken_address''
              = Some (Val (PStr (broker_address @ ''/gettoken'')))"
    and c: "init ''ds'' ''dTpw'' ''data'' ''CONST_HTTP_SUCCESS_CODE'' = Some (Val (PInt 200))"
    and h: "init ''ds'' ''dTpw'' ''data'' ''headers'' = None"
    and t: "init ''ds'' ''dTpw'' ''data'' ''access_token'' = None"
    by (simp_all add: init_def)
  have s: "status_code (shd (replies (scenario [] (reply 401 None)))) \<noteq> 200"
    by (simp add: scenario_def reply_def)
  from get_access_token_not_200 [of "init ''ds'' ''dTpw'' ''data''" "''dTpw''"
      "broker_address @ ''/gettoken''" "scenario [] (reply 401 None)"] k a c s h t
  show ?thesis
    by simp
qed

section \<open>Properties of \<^verbatim>\<open>acceptTandC\<close>\<close>

lemma acceptTandC_sent_PUT:
  assumes "d ''acceptTandC_address'' = Some (Val (PStr url))"
    and "d ''headers'' = Some headers"
  shows "sent PUT (trace (snd (snd (acceptTandC d w)))) =
           sent PUT (trace w)
             + (if accepted_of (shd (replies w)) = Inr (PBool False) then 1 else 0)"
  using assms
  by (simp add: acceptTandC_def bind_e_def getitem_def request_def sent_def
      split: sum.splits)

lemma acceptTandC_replies:
  assumes "d ''acceptTandC_address'' = Some (Val (PStr url))"
    and "d ''headers'' = Some headers"
  shows "replies (snd (snd (acceptTandC d w))) =
           (if accepted_of (shd (replies w)) = Inr (PBool False)
            then stl (stl (replies w)) else stl (replies w))"
  using assms
  by (simp add: acceptTandC_def bind_e_def getitem_def request_def
      split: sum.splits)

lemma acceptTandC_dict:
  "fst (snd (acceptTandC d w)) ''acceptTandC_address'' = d ''acceptTandC_address''
   \<and> fst (snd (acceptTandC d w)) ''headers'' = d ''headers''"
  by (simp add: acceptTandC_def bind_e_def getitem_def request_def
      split: sum.splits option.splits prod.splits)

text \<open>
  C5. In a session with the terms address and the headers,
  \<^verbatim>\<open>acceptTandC\<close> sends no PUT when the GET reports the terms accepted
  (anything but \<^verbatim>\<open>False\<close>), and exactly one PUT when it reports
  \<^verbatim>\<open>False\<close>. Called twice in succession against a broker that records the
  acceptance (after a PUT, the next GET no longer reports \<^verbatim>\<open>False\<close>), it
  sends at most one PUT in total.
\<close>

theorem acceptTandC_idempotent:
  assumes "d ''acceptTandC_address'' = Some (Val (PStr url))"
    and "d ''headers'' = Some headers"
  shows "(accepted_of (shd (replies w)) = Inr (PBool True) \<longrightarrow>
            sent PUT (trace (snd (snd (acceptTandC d w)))) = sent PUT (trace w))
       \<and> (accepted_of (shd (replies w)) = Inr (PBool False) \<longrightarrow>
            sent PUT (trace (snd (snd (acceptTandC d w)))) = sent PUT (trace w) + 1)
       \<and> ((accepted_of (replies w !! 0) = Inr (PBool False) \<longrightarrow>
              accepted_of (replies w !! 2) \<noteq> Inr (PBool False)) \<longrightarrow>
            sent PUT (trace (snd (snd (acceptTandC (fst (snd (acceptTandC d w)))
                                                   (snd (snd (acceptTandC d w)))))))
              \<le> sent PUT (trace w) + 1)"
proof -
  define d1 where "d1 = fst (snd (acceptTandC d w))"
  define w1 where "w1 = snd (snd (acceptTandC d w))"
  have d1: "d1 ''acceptTandC_address'' = Some (Val (PStr url))" "d1 ''headers'' = Some headers"
    using acceptTandC_dict [of d w] assms by (simp_all add: d1_def)
  have first: "sent PUT (trace w1) =
      sent PUT (trace w) + (if accepted_of (shd (replies w)) = Inr (PBool False) then 1 else 0)"
    unfolding w1_def using assms by (rule acceptTandC_sent_PUT)
  have second: "sent PUT (trace (snd (snd (acceptTandC d1 w1)))) =
      sent PUT (trace w1) + (if accepted_of (shd (replies w1)) = Inr (PBool False) then 1 else 0)"
    using d1 by (rule acceptTandC_sent_PUT)
  have next_reply: "shd (replies w1) = replies w !! 2"
    if "accepted_of (shd (replies w)) = Inr (PBool False)"
    using acceptTandC_replies [of d url headers w] assms that
    by (simp add: w1_def numeral_2_eq_2)
  have "sent PUT (trace (snd (snd (acceptTandC d1 w1)))) \<le> sent PUT (trace w) + 1"
    if "accepted_of (replies w !! 0) = Inr (PBool False) \<longrightarrow>
          accepted_of (replies w !! 2) \<noteq> Inr (PBool False)"
    using that first second next_reply by (auto split: if_splits)
  with first show ?thesis
    by (simp add: d1_def w1_def)
qed

theorem acceptTandC_idempotent_witness:
  "accepted_of (shd (replies (scenario [] (accepted_reply True)))) = Inr (PBool True)
   \<and> sent PUT (trace (snd (snd (acceptTandC logged_in (scenario [] (accepted_reply True)))))) = 0
   \<and> accepted_of (shd (replies (scenario [accepted_reply False] (accepted_reply True))))
       = Inr (PBool False)
   \<and> sent PUT (trace (snd (snd (acceptTandC logged_in
              (scenario [accepted_reply False] (accepted_reply True)))))) = 1
   \<and> sent PUT (trace (snd (snd (acceptTandC
          (fst (snd (acceptTandC logged_in (scenario [accepted_reply False] (accepted_reply True)))))
          (snd (snd (acceptTandC logged_in (scenario [accepted_reply False] (accepted_reply True))))))))) \<le> 1"
proof -
  have a: "logged_in ''acceptTandC_address''
             = Some (Val (PStr (broker_address @ ''/termsaccepted/Copernicus_General_License'')))"
    and h: "logged_in ''headers'' = Some bearer"
    by (simp_all add: logged_in_def init_def bearer_def)
  have t: "accepted_of (shd (replies (scenario [] (accepted_reply True)))) = Inr (PBool True)"
    and t0: "sent PUT (trace (scenario [] (accepted_reply True))) = 0"
    by (simp_all add: scenario_def accepted_reply_def reply_def accepted_of_def loads_def
        bind_e_def sent_def)
  have f: "accepted_of (shd (replies (scenario [accepted_reply False] (accepted_reply True))))
             = Inr (PBool False)"
    and f0: "accepted_of (replies (scenario [accepted_reply False] (accepted_reply True)) !! 0)
             = Inr (PBool False)"
    and f2: "accepted_of (replies (scenario [accepted_reply False] (accepted_reply True)) !! 2)
             \<noteq> Inr (PBool False)"
    and f3: "sent PUT (trace (scenario [accepted_reply False] (accepted_reply True))) = 0"
    by (simp_all add: scenario_def accepted_reply_def reply_def accepted_of_def loads_def
        bind_e_def sent_def numeral_2_eq_2)
  from acceptTandC_idempotent [of logged_in _ bearer "scenario [] (accepted_reply True)"]
    acceptTandC_idempotent [of logged_in _ bearer
      "scenario [accepted_reply False] (accepted_reply True)"]
    a h t t0 f f0 f2 f3
  show ?thesis by simp
qed

section \<open>Properties of the polling loop\<close>

lemma bind_e_assoc:
  "bind_e (bind_e m f) g = bind_e m (\<lambda>x. bind_e (f x) g)"
  by (cases m) (simp_all add: bind_e_def)

lemma read_status_alt:
  "read_status d r status =
     bind_e (getitem d ''CONST_HTTP_SUCCESS_CODE'') (\<lambda>code.
       if status_eq (status_code r) code then
         bind_e (status_of r) (\<lambda>s. bind_e (as_str (Val s)) (\<lambda>_. Inr s))
       else Inr status)"
  by (simp add: read_status_def status_of_def bind_e_assoc cong: if_cong)

lemma read_status_completes:
  assumes "d ''CONST_HTTP_SUCCESS_CODE'' = Some (Val (PInt 200))" and "completes r"
  shows "read_status d r status = Inr (PStr ''completed'')"
  using assms
  by (simp add: read_status_alt completes_def bind_e_def getitem_def)

lemma read_status_pending:
  assumes "d ''CONST_HTTP_SUCCESS_CODE'' = Some (Val (PInt 200))" and "pending r"
    and "status \<noteq> PStr ''completed''"
  shows "\<exists>status'. read_status d r status = Inr status' \<and> status' \<noteq> PStr ''completed''"
  using assms
  by (auto simp add: read_status_alt pending_def bind_e_def getitem_def
      split: sum.splits pyval.splits if_splits)

lemma poll_loop_step:
  assumes "status \<noteq> PStr ''completed''"
  shows "poll_loop (Inr (url, headers)) d status count resp w =
           (case read_status d (shd (replies w)) status of
              Inl e \<Rightarrow>
                Some (Inl e, w\<lparr>replies := stl (replies w),
                               trace := trace w @ poll_events url headers (count + 1)\<rparr>)
            | Inr status' \<Rightarrow>
                poll_loop (Inr (url, headers)) d status' (count + 1) (Some (shd (replies w)))
                  (w\<lparr>replies := stl (replies w),
                     trace := trace w @ poll_events url headers (count + 1)\<rparr>))"
  using assms
  by (subst poll_loop.simps)
     (simp add: request_def sleep_def log_def poll_events_def split: sum.splits)

lemma poll_loop_done:
  "poll_loop target d (PStr ''completed'') count resp w = Some (Inr resp, w)"
  by (subst poll_loop.simps) simp

lemma poll_loop_runs:
  assumes code: "d ''CONST_HTTP_SUCCESS_CODE'' = Some (Val (PInt 200))"
  shows "status \<noteq> PStr ''completed'' \<Longrightarrow> \<forall>k<n. pending (replies w !! k)
    \<Longrightarrow> completes (replies w !! n)
    \<Longrightarrow> poll_loop (Inr (url, headers)) d status count resp w =
          Some (Inr (Some (replies w !! n)),
                w\<lparr>replies := sdrop (Suc n) (replies w),
                  trace := trace w @ polling url headers count (Suc n)\<rparr>)"
proof (induction n arbitrary: status count resp w)
  case 0
  then have "read_status d (shd (replies w)) status = Inr (PStr ''completed'')"
    using code by (simp add: read_status_completes)
  with 0 show ?case
    by (simp add: poll_loop_step poll_loop_done)
next
  case (Suc n)
  define w1 where "w1 = w\<lparr>replies := stl (replies w),
                          trace := trace w @ poll_events url headers (count + 1)\<rparr>"
  from Suc.prems have "pending (shd (replies w))"
    by (metis snth.simps(1) zero_less_Suc)
  with code Suc.prems(1) obtain status' where
    st: "read_status d (shd (replies w)) status = Inr status'"
    and ne: "status' \<noteq> PStr ''completed''"
    using read_status_pending by blast
  have step: "poll_loop (Inr (url, headers)) d status count resp w =
      poll_loop (Inr (url, headers)) d status' (count + 1) (Some (shd (replies w))) w1"
    using Suc.prems(1) st by (simp add: poll_loop_step w1_def)
  have p: "\<forall>k<n. pending (replies w1 !! k)"
    using Suc.prems(2) by (auto simp: w1_def)
  have c: "completes (replies w1 !! n)"
    using Suc.prems(3) by (simp add: w1_def)
  from Suc.IH [OF ne p c] step show ?case
    by (simp add: w1_def)
qed

lemma poll_loop_returns_only_if:
  assumes ret: "poll_loop target d status count resp w = Some y"
    and tgt: "target = Inr (url, headers)"
    and code: "d ''CONST_HTTP_SUCCESS_CODE'' = Some (Val (PInt 200))"
    and ne: "status \<noteq> PStr ''completed''"
  shows "\<exists>n. \<not> pending (replies w !! n)"
proof -
  have "target = Inr (url, headers)
        \<and> d ''CONST_HTTP_SUCCESS_CODE'' = Some (Val (PInt 200))
        \<and> status \<noteq> PStr ''completed''
      \<longrightarrow> (\<exists>n. \<not> pending (replies w !! n))"
  proof (rule poll_loop.raw_induct
      [where P = "\<lambda>target d status count resp w y.
          target = Inr (url, headers)
          \<and> d ''CONST_HTTP_SUCCESS_CODE'' = Some (Val (PInt 200))
          \<and> status \<noteq> PStr ''completed''
        \<longrightarrow> (\<exists>n. \<not> pending (replies w !! n))", OF _ ret], goal_cases)
    case (1 f target d status count resp w y)
    show ?case
    proof (intro impI, elim conjE)
      assume tgt: "target = Inr (url, headers)"
        and code: "d ''CONST_HTTP_SUCCESS_CODE'' = Some (Val (PInt 200))"
        and ne: "status \<noteq> PStr ''completed''"
      show "\<exists>n. \<not> pending (replies w !! n)"
      proof (cases "pending (shd (replies w))")
        case False
        then have "\<not> pending (replies w !! 0)" by simp
        then show ?thesis ..
      next
        case True
        with code ne obtain status' where
          st: "read_status d (shd (replies w)) status = Inr status'"
          and ne': "status' \<noteq> PStr ''completed''"
          using read_status_pending [where d = d] by blast
        define w1 where "w1 = snd (request GET url headers None
                                     (if 20 < count + 1 then sleep 5 w else w))"
        have rs: "replies w1 = stl (replies w)"
          by (simp add: w1_def request_def sleep_def log_def)
        have "f target d status' (count + 1) (Some (shd (replies w))) w1 = Some y"
          using "1"(2) tgt ne st
          by (simp add: Let_def request_def sleep_def log_def w1_def split: if_splits)
        from "1"(1) [OF this] tgt code ne'
        obtain n where "\<not> pending (replies w1 !! n)" by blast
        then have "\<not> pending (replies w !! Suc n)"
          by (simp add: rs)
        then show ?thesis ..
      qed
    qed
  qed
  with tgt code ne show ?thesis by blast
qed

lemma poll_loop_forever:
  assumes "d ''CONST_HTTP_SUCCESS_CODE'' = Some (Val (PInt 200))"
    and "\<forall>n. pending (replies w !! n)"
  shows "poll_loop (Inr (url, headers)) d (PStr ''not started'') 0 None w = None"
proof (cases "poll_loop (Inr (url, headers)) d (PStr ''not started'') 0 None w")
  case None
  then show ?thesis .
next
  case (Some y)
  from poll_loop_returns_only_if [where d = d, OF Some refl assms(1)] assms(2)
  show ?thesis by simp
qed

lemma polling_shape:
  "polling url headers (int c) n =
     replicate (min n (20 - c)) (Request GET url headers None)
     @ concat (replicate (n - (20 - c)) [Sleep 5, Request GET url headers None])"
proof (induction n arbitrary: c)
  case 0
  show ?case by simp
next
  case (Suc n)
  have eq: "int c + 1 = int (Suc c)" by simp
  show ?case
  proof (cases "c < 20")
    case True
    then have "min (Suc n) (20 - c) = Suc (min n (20 - Suc c))"
      and "Suc n - (20 - c) = n - (20 - Suc c)"
      by auto
    with True show ?thesis
      by (simp only: polling.simps eq Suc.IH) (simp add: poll_events_def)
  next
    case False
    then have "min (Suc n) (20 - c) = 0" "min n (20 - Suc c) = 0"
      and "Suc n - (20 - c) = Suc (n - (20 - Suc c))"
      by auto
    with False show ?thesis
      by (simp only: polling.simps eq Suc.IH) (simp add: poll_events_def)
  qed
qed

lemma sent_GET_polling: "sent GET (polling url headers k n) = n"
  by (induction n arbitrary: k) (simp_all add: sent_def poll_events_def)

lemma snth_sconst: "sconst x !! n = x"
  by (induction n) simp_all

lemma snth_scenario:
  "replies (scenario rs r) !! n = (if n < length rs then rs ! n else r)"
  by (simp add: scenario_def shift_snth snth_sconst)

lemma pending_status_reply: "pending (status_reply s) \<longleftrightarrow> s \<noteq> ''completed''"
  by (simp add: pending_def status_reply_def reply_def status_of_def loads_def bind_e_def)

lemma completes_status_reply: "completes (status_reply s) \<longleftrightarrow> s = ''completed''"
  by (simp add: completes_def status_reply_def reply_def status_of_def loads_def bind_e_def)

lemma pending_error_reply: "c \<noteq> 200 \<Longrightarrow> pending (reply c j)"
  by (simp add: pending_def reply_def)

text \<open>
  C2. In a session with the broker address, a job id, the headers and the
  success code 200: when the first \<open>N - 1\<close> replies are pending (an error
  status, or status 200 with any string other than \<^verbatim>\<open>"completed"\<close>, such as
  \<^verbatim>\<open>"failed"\<close>) and the \<open>N\<close>-th is the first to report
  \<^verbatim>\<open>"completed"\<close>, \<^verbatim>\<open>get_request_status\<close> returns after exactly \<open>N\<close>
  polls: it has consumed \<open>N\<close> replies and added to the trace the events of the
  polling policy, which are \<open>N\<close> GET requests, the first 20 sent at once and
  each later one right after a sleep of 5 seconds.
\<close>

theorem get_request_status_polls:
  assumes "request_status_target d = Inr (url, headers)"
    and "d ''CONST_HTTP_SUCCESS_CODE'' = Some (Val (PInt 200))"
    and "0 < N"
    and "\<forall>k<N - 1. pending (replies w !! k)"
    and "completes (replies w !! (N - 1))"
  shows "get_request_status d w =
           Some (Inr (), w\<lparr>replies := sdrop N (replies w),
                            trace := trace w @ polling url headers 0 N\<rparr>)
       \<and> sent GET (polling url headers 0 N) = N
       \<and> polling url headers 0 N =
           replicate (min N 20) (Request GET url headers None)
           @ concat (replicate (N - 20) [Sleep 5, Request GET url headers None])"
proof -
  from \<open>0 < N\<close> obtain n where N: "N = Suc n"
    by (cases N) auto
  have "poll_loop (Inr (url, headers)) d (PStr ''not started'') 0 None w =
          Some (Inr (Some (replies w !! n)),
                w\<lparr>replies := sdrop (Suc n) (replies w),
                  trace := trace w @ polling url headers 0 (Suc n)\<rparr>)"
    using assms(2,4,5)
    by (intro poll_loop_runs) (simp_all add: N)
  then have "get_request_status d w =
           Some (Inr (), w\<lparr>replies := sdrop N (replies w),
                            trace := trace w @ polling url headers 0 N\<rparr>)"
    using assms(1) by (simp add: get_request_status_def N)
  moreover have "polling url headers 0 N =
           replicate (min N 20) (Request GET url headers None)
           @ concat (replicate (N - 20) [Sleep 5, Request GET url headers None])"
    using polling_shape [of url headers 0 N] by simp
  ultimately show ?thesis
    using sent_GET_polling [of url headers 0 N] by blast
qed

theorem get_request_status_polls_witness:
  "get_request_status submitted
     (scenario (replicate 19 (status_reply ''running'')
                @ [reply 503 None, status_reply ''failed'', status_reply ''completed''])
               (reply 404 None))
   = Some (Inr (),
       (scenario (replicate 19 (status_reply ''running'')
                  @ [reply 503 None, status_reply ''failed'', status_reply ''completed''])
                 (reply 404 None))
       \<lparr>replies := sconst (reply 404 None),
         trace := replicate 20
                    (Request GET (broker_address @ ''/datarequest/status/j1'') bearer None)
                  @ [Sleep 5, Request GET (broker_address @ ''/datarequest/status/j1'') bearer None,
                     Sleep 5, Request GET (broker_address @ ''/datarequest/status/j1'') bearer None]\<rparr>)"
proof -
  let ?d = "submitted"
  let ?rs = "replicate 19 (status_reply ''running'')
                @ [reply 503 None, status_reply ''failed'', status_reply ''completed'']"
  let ?w = "scenario ?rs (reply 404 None)"
  let ?url = "broker_address @ ''/datarequest/status/j1''"
  have t: "request_status_target ?d = Inr (?url, bearer)"
    by (simp add: request_status_target_def submitted_def logged_in_def init_def bearer_def
        bind_e_def getitem_def)
  have c: "?d ''CONST_HTTP_SUCCESS_CODE'' = Some (Val (PInt 200))"
    by (simp add: submitted_def logged_in_def init_def)
  have p: "\<forall>k<22 - 1. pending (replies ?w !! k)"
    by (auto simp: snth_scenario nth_append pending_status_reply pending_error_reply
        less_Suc_eq nth_Cons split: nat.splits)
  have e: "completes (replies ?w !! (22 - 1))"
    by (simp add: snth_scenario nth_append completes_status_reply)
  have s: "sdrop 22 (replies ?w) = sconst (reply 404 None)"
    by (simp add: scenario_def sdrop_shift numeral_3_eq_3)
  have "(0::nat) < 22" by simp
  from get_request_status_polls [where d = "?d" and w = "?w" and N = 22, OF t c this p e] s
  show ?thesis
    by (simp add: scenario_def numeral_2_eq_2)
qed

lemma read_status_malformed:
  assumes "d ''CONST_HTTP_SUCCESS_CODE'' = Some (Val (PInt 200))"
    and "\<not> pending r" and "\<not> completes r"
  shows "\<exists>e. read_status d r status = Inl e"
proof -
  from assms(2) have c: "status_code r = 200"
    by (simp add: pending_def split: if_splits)
  show ?thesis
  proof (cases "status_of r")
    case (Inl e)
    with assms(1) c show ?thesis
      by (simp add: read_status_alt bind_e_def getitem_def)
  next
    case (Inr v)
    with assms(2,3) c have "as_str (Val v) = Inl TypeError"
      by (cases v) (simp_all add: pending_def completes_def)
    with assms(1) c Inr show ?thesis
      by (simp add: read_status_alt bind_e_def getitem_def)
  qed
qed

lemma poll_loop_raises:
  assumes code: "d ''CONST_HTTP_SUCCESS_CODE'' = Some (Val (PInt 200))"
  shows "status \<noteq> PStr ''completed'' \<Longrightarrow> \<forall>k<n. pending (replies w !! k)
    \<Longrightarrow> \<not> pending (replies w !! n) \<Longrightarrow> \<not> completes (replies w !! n)
    \<Longrightarrow> \<exists>e w'. poll_loop (Inr (url, headers)) d status count resp w = Some (Inl e, w')"
proof (induction n arbitrary: status count resp w)
  case 0
  from read_status_malformed [where d = d, OF code] 0(3,4)
  obtain e where "read_status d (shd (replies w)) status = Inl e"
    by auto
  with 0(1) show ?case
    by (simp add: poll_loop_step)
next
  case (Suc n)
  define w1 where "w1 = w\<lparr>replies := stl (replies w),
                          trace := trace w @ poll_events url headers (count + 1)\<rparr>"
  from Suc.prems have "pending (shd (replies w))"
    by (metis snth.simps(1) zero_less_Suc)
  with code Suc.prems(1) obtain status' where
    st: "read_status d (shd (replies w)) status = Inr status'"
    and ne: "status' \<noteq> PStr ''completed''"
    using read_status_pending [where d = d] by blast
  have step: "poll_loop (Inr (url, headers)) d status count resp w =
      poll_loop (Inr (url, headers)) d status' (count + 1) (Some (shd (replies w))) w1"
    using Suc.prems(1) st by (simp add: poll_loop_step w1_def)
  have p: "\<forall>k<n. pending (replies w1 !! k)"
    using Suc.prems(2) by (auto simp: w1_def)
  have c: "\<not> pending (replies w1 !! n)" "\<not> completes (replies w1 !! n)"
    using Suc.prems(3,4) by (simp_all add: w1_def)
  from Suc.IH [OF ne p c] step show ?case
    by simp
qed


lemma pending_not_completes: "pending r \<Longrightarrow> \<not> completes r"
  by (auto simp: pending_def completes_def split: if_splits)

lemma first_not_pending:
  fixes rs :: "response stream"
  assumes "\<not> (\<forall>n. pending (rs !! n))"
  obtains n where "\<forall>k<n. pending (rs !! k)" "\<not> pending (rs !! n)"
proof -
  define n where "n = (LEAST n. \<not> pending (rs !! n))"
  from assms obtain m where "\<not> pending (rs !! m)" by blast
  then have "\<not> pending (rs !! n)"
    unfolding n_def by (rule LeastI)
  moreover have "pending (rs !! k)" if "k < n" for k
    using not_less_Least [of k "\<lambda>n. \<not> pending (rs !! n)"] that
    unfolding n_def by simp
  ultimately show ?thesis
    using that by blast
qed

lemma completes_first_not_pending:
  assumes "\<forall>k<n. pending (rs !! k)" "\<not> pending (rs !! n)"
    and "\<forall>k<m. pending (rs !! k)" "completes (rs !! m)"
  shows "m = n"
proof (rule ccontr)
  assume "m \<noteq> n"
  then consider "m < n" | "n < m" by linarith
  then show False
  proof cases
    case 1
    with assms(1) have "pending (rs !! m)" by simp
    with assms(4) show False by (simp add: pending_not_completes)
  next
    case 2
    with assms(3) have "pending (rs !! n)" by simp
    with assms(2) show False by simp
  qed
qed

lemma poll_loop_returns:
  assumes "d ''CONST_HTTP_SUCCESS_CODE'' = Some (Val (PInt 200))"
    and "\<forall>k<n. pending (replies w !! k)" and "completes (replies w !! n)"
  shows "\<exists>w'. poll_loop (Inr (url, headers)) d (PStr ''not started'') 0 None w
           = Some (Inr (Some (replies w !! n)), w')"
proof -
  have "PStr ''not started'' \<noteq> PStr ''completed''" by simp
  from poll_loop_runs [where d = d, OF assms(1) this assms(2,3)]
  show ?thesis by blast
qed

lemma poll_loop_raises_start:
  assumes "d ''CONST_HTTP_SUCCESS_CODE'' = Some (Val (PInt 200))"
    and "\<forall>k<n. pending (replies w !! k)" and "\<not> pending (replies w !! n)"
    and "\<not> completes (replies w !! n)"
  shows "\<exists>e w'. poll_loop (Inr (url, headers)) d (PStr ''not started'') 0 None w
           = Some (Inl e, w')"
proof -
  have "PStr ''not started'' \<noteq> PStr ''completed''" by simp
  from poll_loop_raises [where d = d, OF assms(1) this assms(2,3,4)]
  show ?thesis .
qed

lemma poll_loop_outcome:
  assumes code: "d ''CONST_HTTP_SUCCESS_CODE'' = Some (Val (PInt 200))"
  shows "poll_loop (Inr (url, headers)) d (PStr ''not started'') 0 None w = None
           \<longleftrightarrow> (\<forall>n. pending (replies w !! n))"
    and "(\<exists>r w'. poll_loop (Inr (url, headers)) d (PStr ''not started'') 0 None w
                   = Some (Inr (Some r), w'))
           \<longleftrightarrow> (\<exists>n. (\<forall>k<n. pending (replies w !! k)) \<and> completes (replies w !! n))"
    and "poll_loop (Inr (url, headers)) d (PStr ''not started'') 0 None w
           \<noteq> Some (Inr None, w')"
proof -
  let ?run = "poll_loop (Inr (url, headers)) d (PStr ''not started'') 0 None w"
  let ?done = "\<exists>n. (\<forall>k<n. pending (replies w !! k)) \<and> completes (replies w !! n)"
  have "(?run = None \<longleftrightarrow> (\<forall>n. pending (replies w !! n)))
      \<and> ((\<exists>r w'. ?run = Some (Inr (Some r), w')) \<longleftrightarrow> ?done)
      \<and> ?run \<noteq> Some (Inr None, w')"
  proof (cases "\<forall>n. pending (replies w !! n)")
    case True
    with code have none: "?run = None"
      by (rule poll_loop_forever)
    have "\<not> ?done"
      using True pending_not_completes by blast
    with True none show ?thesis by simp
  next
    case False
    then obtain n where
      n: "\<forall>k<n. pending (replies w !! k)" "\<not> pending (replies w !! n)"
      by (rule first_not_pending)
    show ?thesis
    proof (cases "completes (replies w !! n)")
      case True
      from poll_loop_returns [where d = d, OF code n(1) True]
      obtain w1 where "?run = Some (Inr (Some (replies w !! n)), w1)" by blast
      moreover have ?done using n(1) True by blast
      ultimately show ?thesis using False by simp
    next
      case nc: False
      from poll_loop_raises_start [where d = d, OF code n nc]
      obtain e w1 where "?run = Some (Inl e, w1)" by blast
      moreover have "\<not> ?done"
      proof
        assume ?done
        then obtain m where "\<forall>k<m. pending (replies w !! k)" "completes (replies w !! m)"
          by blast
        with completes_first_not_pending [OF n this] nc show False by simp
      qed
      ultimately show ?thesis using False by simp
    qed
  qed
  then show "?run = None \<longleftrightarrow> (\<forall>n. pending (replies w !! n))"
    and "(\<exists>r w'. ?run = Some (Inr (Some r), w')) \<longleftrightarrow> ?done"
    and "?run \<noteq> Some (Inr None, w')"
    by blast+
qed

text \<open>
  C3, as the code has it. Neither polling loop has a bound on its retries. In
  a session with the broker address, the job id (or an order id), the headers
  and the success code 200, each of \<^verbatim>\<open>get_request_status\<close> and
  \<^verbatim>\<open>get_order_status\<close> fails to terminate exactly when every reply is
  pending (an error reply, or a status-200 reply reporting any status string
  other than \<^verbatim>\<open>"completed"\<close>); it returns exactly when the first reply
  that is not pending reports \<^verbatim>\<open>"completed"\<close>; and it ends with an
  exception exactly when the first reply that is not pending does not: a
  status-200 reply whose body is not a JSON document carrying a string
  \<^verbatim>\<open>status\<close>. Over replies none of which is of that last kind, the loop
  runs for ever if and only if no reply ever has status 200 and reports
  \<^verbatim>\<open>"completed"\<close>: a job that stays \<^verbatim>\<open>"running"\<close> or
  \<^verbatim>\<open>"failed"\<close>, or an endpoint that only returns errors, is polled
  without end.
\<close>

theorem polling_unbounded:
  assumes "d ''CONST_HTTP_SUCCESS_CODE'' = Some (Val (PInt 200))"
    and "request_status_target d = Inr (url, headers)"
    and "order_status_target d order_id = Inr (url', headers')"
  shows "(get_request_status d w = None \<longleftrightarrow> (\<forall>n. pending (replies w !! n)))
       \<and> ((\<exists>w'. get_request_status d w = Some (Inr (), w')) \<longleftrightarrow>
            (\<exists>n. (\<forall>k<n. pending (replies w !! k)) \<and> completes (replies w !! n)))
       \<and> (get_order_status d order_id w = None \<longleftrightarrow> (\<forall>n. pending (replies w !! n)))
       \<and> ((\<exists>r w'. get_order_status d order_id w = Some (Inr r, w')) \<longleftrightarrow>
            (\<exists>n. (\<forall>k<n. pending (replies w !! k)) \<and> completes (replies w !! n)))
       \<and> ((\<exists>e w'. get_request_status d w = Some (Inl e, w')) \<longleftrightarrow>
            (\<exists>n. (\<forall>k<n. pending (replies w !! k)) \<and> \<not> pending (replies w !! n)
                 \<and> \<not> completes (replies w !! n)))
       \<and> ((\<exists>e w'. get_order_status d order_id w = Some (Inl e, w')) \<longleftrightarrow>
            (\<exists>n. (\<forall>k<n. pending (replies w !! k)) \<and> \<not> pending (replies w !! n)
                 \<and> \<not> completes (replies w !! n)))
       \<and> ((\<forall>n. pending (replies w !! n) \<or> completes (replies w !! n)) \<longrightarrow>
            (get_request_status d w = None \<longleftrightarrow> (\<forall>n. \<not> completes (replies w !! n)))
          \<and> (get_order_status d order_id w = None
                \<longleftrightarrow> (\<forall>n. \<not> completes (replies w !! n))))"
proof -
  let ?job = "poll_loop (Inr (url, headers)) d (PStr ''not started'') 0 None w"
  let ?order = "poll_loop (Inr (url', headers')) d (PStr ''not started'') 0 None w"
  let ?done = "\<exists>n. (\<forall>k<n. pending (replies w !! k)) \<and> completes (replies w !! n)"
  note job = poll_loop_outcome [where d = d and url = url and headers = headers and w = w,
      OF assms(1)]
  note order = poll_loop_outcome [where d = d and url = url' and headers = headers' and w = w,
      OF assms(1)]
  have a: "get_request_status d w = None \<longleftrightarrow> ?job = None"
    using assms(2)
    by (cases ?job) (auto simp add: get_request_status_def split: sum.splits)
  have b: "(\<exists>w'. get_request_status d w = Some (Inr (), w'))
             \<longleftrightarrow> (\<exists>r w'. ?job = Some (Inr (Some r), w'))"
  proof
    assume "\<exists>w'. get_request_status d w = Some (Inr (), w')"
    then obtain w' r where "?job = Some (Inr r, w')"
      using assms(2)
      by (cases ?job) (auto simp add: get_request_status_def split: sum.splits)
    with job(3) [where w' = w'] show "\<exists>r w'. ?job = Some (Inr (Some r), w')"
      by (cases r) auto
  next
    assume "\<exists>r w'. ?job = Some (Inr (Some r), w')"
    then show "\<exists>w'. get_request_status d w = Some (Inr (), w')"
      using assms(2) by (auto simp add: get_request_status_def)
  qed
  have c: "get_order_status d order_id w = None \<longleftrightarrow> ?order = None"
    using assms(3)
    by (cases ?order)
       (auto simp add: get_order_status_def split: sum.splits option.splits)
  have e: "(\<exists>r w'. get_order_status d order_id w = Some (Inr r, w'))
             \<longleftrightarrow> (\<exists>r w'. ?order = Some (Inr (Some r), w'))"
  proof
    assume "\<exists>r w'. get_order_status d order_id w = Some (Inr r, w')"
    then show "\<exists>r w'. ?order = Some (Inr (Some r), w')"
      using assms(3)
      by (cases ?order)
         (auto simp add: get_order_status_def split: sum.splits option.splits)
  next
    assume "\<exists>r w'. ?order = Some (Inr (Some r), w')"
    then show "\<exists>r w'. get_order_status d order_id w = Some (Inr r, w')"
      using assms(3) by (auto simp add: get_order_status_def)
  qed
  have f: "(\<forall>n. pending (replies w !! n)) \<longleftrightarrow> (\<forall>n. \<not> completes (replies w !! n))"
    if "\<forall>n. pending (replies w !! n) \<or> completes (replies w !! n)"
    using that pending_not_completes by blast
  have g: "get_request_status d w = None \<longleftrightarrow> (\<forall>n. pending (replies w !! n))"
    and h: "get_order_status d order_id w = None \<longleftrightarrow> (\<forall>n. pending (replies w !! n))"
    unfolding a c using job(1) order(1) by simp_all
  have i: "(\<exists>w'. get_request_status d w = Some (Inr (), w')) \<longleftrightarrow> ?done"
    and j: "(\<exists>r w'. get_order_status d order_id w = Some (Inr r, w')) \<longleftrightarrow> ?done"
    unfolding b e using job(2) order(2) by simp_all
  let ?fails = "\<exists>n. (\<forall>k<n. pending (replies w !! k)) \<and> \<not> pending (replies w !! n)
                 \<and> \<not> completes (replies w !! n)"
  have tri: "(\<forall>n. pending (replies w !! n)) \<or> ?done \<or> ?fails"
  proof (cases "\<forall>n. pending (replies w !! n)")
    case True
    then show ?thesis by simp
  next
    case False
    then obtain n where "\<forall>k<n. pending (replies w !! k)" "\<not> pending (replies w !! n)"
      by (rule first_not_pending)
    then show ?thesis
      by (cases "completes (replies w !! n)") blast+
  qed
  have excl: "\<not> (\<forall>n. pending (replies w !! n))" "\<not> ?done" if ?fails
  proof -
    from that obtain n where
      n: "\<forall>k<n. pending (replies w !! k)" "\<not> pending (replies w !! n)"
      and nc: "\<not> completes (replies w !! n)"
      by blast
    from n(2) show "\<not> (\<forall>n. pending (replies w !! n))" by blast
    show "\<not> ?done"
    proof
      assume ?done
      then obtain m where "\<forall>k<m. pending (replies w !! k)" "completes (replies w !! m)"
        by blast
      with completes_first_not_pending [OF n this] nc show False by simp
    qed
  qed
  have k: "(\<exists>e w'. get_request_status d w = Some (Inl e, w')) \<longleftrightarrow> ?fails"
  proof
    assume "\<exists>e w'. get_request_status d w = Some (Inl e, w')"
    then have "get_request_status d w \<noteq> None"
      and "\<not> (\<exists>w'. get_request_status d w = Some (Inr (), w'))"
      by auto
    with g i tri show ?fails by blast
  next
    assume ?fails
    with excl g i have "get_request_status d w \<noteq> None"
      and "\<not> (\<exists>w'. get_request_status d w = Some (Inr (), w'))"
      by blast+
    then obtain a b where ab: "get_request_status d w = Some (a, b)"
      and na: "a \<noteq> Inr ()"
      by (cases "get_request_status d w") auto
    from na obtain e where "a = Inl e"
      by (cases a) simp_all
    with ab show "\<exists>e w'. get_request_status d w = Some (Inl e, w')"
      by blast
  qed
  have l: "(\<exists>e w'. get_order_status d order_id w = Some (Inl e, w')) \<longleftrightarrow> ?fails"
  proof
    assume "\<exists>e w'. get_order_status d order_id w = Some (Inl e, w')"
    then have "get_order_status d order_id w \<noteq> None"
      and "\<not> (\<exists>r w'. get_order_status d order_id w = Some (Inr r, w'))"
      by auto
    with h j tri show ?fails by blast
  next
    assume ?fails
    with excl h j have "get_order_status d order_id w \<noteq> None"
      and "\<not> (\<exists>r w'. get_order_status d order_id w = Some (Inr r, w'))"
      by blast+
    then obtain a b where ab: "get_order_status d order_id w = Some (a, b)"
      and na: "\<forall>r. a \<noteq> Inr r"
      by (cases "get_order_status d order_id w") auto
    from na obtain e where "a = Inl e"
      by (cases a) simp_all
    with ab show "\<exists>e w'. get_order_status d order_id w = Some (Inl e, w')"
      by blast
  qed
  from f g h i j k l show ?thesis
    by simp
qed

theorem polling_unbounded_witness:
  "get_request_status submitted (scenario [] (reply 503 None)) = None
   \<and> get_order_status submitted (PStr ''o1'') (scenario [] (reply 503 None)) = None
   \<and> get_request_status submitted (scenario [] (status_reply ''failed'')) = None
   \<and> get_order_status submitted (PStr ''o1'') (scenario [] (status_reply ''running'')) = None
   \<and> (\<exists>w'. get_request_status submitted
              (scenario [status_reply ''running''] (status_reply ''completed'')) = Some (Inr (), w'))
   \<and> (\<exists>r w'. get_order_status submitted (PStr ''o1'')
              (scenario [reply 503 None] (status_reply ''completed'')) = Some (Inr r, w'))
   \<and> (\<exists>e w'. get_request_status submitted
              (scenario [status_reply ''running''] (reply 200 None)) = Some (Inl e, w'))"
proof -
  have c: "submitted ''CONST_HTTP_SUCCESS_CODE'' = Some (Val (PInt 200))"
    by (simp add: submitted_def logged_in_def init_def)
  have t: "request_status_target submitted
             = Inr (broker_address @ ''/datarequest/status/j1'', bearer)"
    by (simp add: request_status_target_def submitted_def logged_in_def init_def bearer_def
        bind_e_def getitem_def)
  have u: "order_status_target submitted (PStr ''o1'')
             = Inr (broker_address @ ''/dataorder/status/o1'', bearer)"
    by (simp add: order_status_target_def submitted_def logged_in_def init_def bearer_def
        bind_e_def getitem_def)
  note inst = polling_unbounded [where d = submitted and order_id = "PStr ''o1''", OF c t u]
  have e: "\<forall>n. pending (replies (scenario [] (reply 503 None)) !! n)"
    by (simp add: snth_scenario pending_def reply_def)
  have f: "\<forall>n. pending (replies (scenario [] (status_reply ''failed'')) !! n)"
    by (simp add: snth_scenario pending_status_reply)
  have g: "\<forall>n. pending (replies (scenario [] (status_reply ''running'')) !! n)"
    by (simp add: snth_scenario pending_status_reply)
  have "(\<forall>k<1. pending (replies (scenario [status_reply ''running'']
                                     (status_reply ''completed'')) !! k))
      \<and> completes (replies (scenario [status_reply ''running'']
                                     (status_reply ''completed'')) !! 1)"
    by (simp add: scenario_def pending_status_reply completes_status_reply)
  then have r: "\<exists>n. (\<forall>k<n. pending (replies (scenario [status_reply ''running'']
                                     (status_reply ''completed'')) !! k))
      \<and> completes (replies (scenario [status_reply ''running'']
                                     (status_reply ''completed'')) !! n)" ..
  have "(\<forall>k<1. pending (replies (scenario [reply 503 None]
                                     (status_reply ''completed'')) !! k))
      \<and> completes (replies (scenario [reply 503 None]
                                     (status_reply ''completed'')) !! 1)"
    by (simp add: scenario_def pending_error_reply completes_status_reply)
  then have s: "\<exists>n. (\<forall>k<n. pending (replies (scenario [reply 503 None]
                                     (status_reply ''completed'')) !! k))
      \<and> completes (replies (scenario [reply 503 None]
                                     (status_reply ''completed'')) !! n)" ..
  from inst [of "scenario [] (reply 503 None)"] e
  have 1: "get_request_status submitted (scenario [] (reply 503 None)) = None"
    and 2: "get_order_status submitted (PStr ''o1'') (scenario [] (reply 503 None)) = None"
    by simp_all
  from inst [of "scenario [] (status_reply ''failed'')"] f
  have 3: "get_request_status submitted (scenario [] (status_reply ''failed'')) = None"
    by simp
  from inst [of "scenario [] (status_reply ''running'')"] g
  have 4: "get_order_status submitted (PStr ''o1'') (scenario [] (status_reply ''running''))
             = None"
    by simp
  from inst [of "scenario [status_reply ''running''] (status_reply ''completed'')"] r
  have 5: "\<exists>w'. get_request_status submitted
              (scenario [status_reply ''running''] (status_reply ''completed''))
              = Some (Inr (), w')"
    by simp
  from inst [of "scenario [reply 503 None] (status_reply ''completed'')"] s
  have 6: "\<exists>r w'. get_order_status submitted (PStr ''o1'')
              (scenario [reply 503 None] (status_reply ''completed'')) = Some (Inr r, w')"
    by simp
  have "(\<forall>k<1. pending (replies (scenario [status_reply ''running'']
                                     (reply 200 None)) !! k))
      \<and> \<not> pending (replies (scenario [status_reply ''running''] (reply 200 None)) !! 1)
      \<and> \<not> completes (replies (scenario [status_reply ''running''] (reply 200 None)) !! 1)"
    by (simp add: scenario_def pending_status_reply)
       (simp add: pending_def completes_def reply_def status_of_def loads_def bind_e_def)
  then have m: "\<exists>n. (\<forall>k<n. pending (replies (scenario [status_reply ''running'']
                                     (reply 200 None)) !! k))
      \<and> \<not> pending (replies (scenario [status_reply ''running''] (reply 200 None)) !! n)
      \<and> \<not> completes (replies (scenario [status_reply ''running''] (reply 200 None)) !! n)" ..
  from inst [of "scenario [status_reply ''running''] (reply 200 None)"] m
  have 7: "\<exists>e w'. get_request_status submitted
              (scenario [status_reply ''running''] (reply 200 None)) = Some (Inl e, w')"
    by simp
  from 1 2 3 4 5 6 7 show ?thesis by blast
qed

text \<open>
  The statement without that restriction fails. A broker that answers every
  poll with status 200 and a body that is not a JSON document never reports
  \<^verbatim>\<open>"completed"\<close>, and yet the loop ends, at the first poll, with the
  exception of \<^verbatim>\<open>json.loads\<close>.
\<close>

theorem polling_malformed_reply_counterexample:
  "get_request_status submitted (scenario [] (reply 200 None))
     = Some (Inl JSONDecodeError,
             (scenario [] (reply 200 None))
               \<lparr>replies := sconst (reply 200 None),
                 trace := [Request GET (broker_address @ ''/datarequest/status/j1'')
                             bearer None]\<rparr>)
   \<and> replies (scenario [] (reply 200 None)) = sconst (reply 200 None)
   \<and> \<not> completes (reply 200 None)"
proof -
  have t: "request_status_target submitted
             = Inr (broker_address @ ''/datarequest/status/j1'', bearer)"
    by (simp add: request_status_target_def submitted_def logged_in_def init_def bearer_def
        bind_e_def getitem_def)
  have r: "read_status submitted (shd (replies (scenario [] (reply 200 None))))
             (PStr ''not started'') = Inl JSONDecodeError"
    by (simp add: read_status_def submitted_def logged_in_def init_def getitem_def bind_e_def
        scenario_def reply_def loads_def)
  have "poll_loop (Inr (broker_address @ ''/datarequest/status/j1'', bearer)) submitted
          (PStr ''not started'') 0 None (scenario [] (reply 200 None))
        = Some (Inl JSONDecodeError,
             (scenario [] (reply 200 None))
               \<lparr>replies := sconst (reply 200 None),
                 trace := [Request GET (broker_address @ ''/datarequest/status/j1'')
                             bearer None]\<rparr>)"
    by (simp add: poll_loop_step r) (simp add: scenario_def poll_events_def)
  then show ?thesis
    by (simp add: get_request_status_def t)
       (simp add: scenario_def completes_def reply_def status_of_def loads_def bind_e_def)
qed


section \<open>Properties of \<^verbatim>\<open>get_order_ids\<close>\<close>

lemma get_order_status_completes:
  assumes code: "d ''CONST_HTTP_SUCCESS_CODE'' = Some (Val (PInt 200))"
    and broker: "d ''broker_endpoint'' = Some (Val (PStr broker))"
    and headers: "d ''headers'' = Some headers"
    and qs: "qs \<noteq> []" "list_all pending (butlast qs)" "completes (last qs)"
    and rs: "replies w = qs @- s"
  shows "\<exists>tr. get_order_status d (PStr oid) w =
           Some (Inr (last qs), w\<lparr>replies := s, trace := trace w @ tr\<rparr>)"
proof -
  define n where "n = length qs - 1"
  have len: "length qs = Suc n"
    using qs(1) by (cases qs) (simp_all add: n_def)
  have tgt: "order_status_target d (PStr oid)
               = Inr (broker @ ''/dataorder/status/'' @ oid, headers)"
    using broker headers by (simp add: order_status_target_def bind_e_def getitem_def)
  have p: "\<forall>k<n. pending (replies w !! k)"
  proof (intro allI impI)
    fix k assume k: "k < n"
    then have "replies w !! k = butlast qs ! k"
      using len by (simp add: rs nth_butlast)
    moreover have "butlast qs ! k \<in> set (butlast qs)"
      using k len by (intro nth_mem) simp
    ultimately show "pending (replies w !! k)"
      using qs(2) by (simp add: list_all_iff)
  qed
  have c: "completes (replies w !! n)"
    using qs(1,3) len by (simp add: rs last_conv_nth)
  have d: "sdrop (Suc n) (replies w) = s"
    using len by (simp add: rs sdrop_shift)
  have e: "replies w !! n = last qs"
    using qs(1) len by (simp add: rs last_conv_nth)
  have "poll_loop (Inr (broker @ ''/dataorder/status/'' @ oid, headers)) d
          (PStr ''not started'') 0 None w =
        Some (Inr (Some (last qs)),
              w\<lparr>replies := s,
                trace := trace w @ polling (broker @ ''/dataorder/status/'' @ oid) headers 0
                                     (Suc n)\<rparr>)"
    using poll_loop_runs [where d = d and w = w and n = n and status = "PStr ''not started''"
      and count = 0 and resp = None and url = "broker @ ''/dataorder/status/'' @ oid"
      and headers = headers, OF code _ p c]
    by (simp only: d e) simp
  then have "get_order_status d (PStr oid) w =
           Some (Inr (last qs),
             w\<lparr>replies := s,
               trace := trace w @ polling (broker @ ''/dataorder/status/'' @ oid) headers 0
                                    (Suc n)\<rparr>)"
    by (simp add: get_order_status_def tgt del: polling.simps)
  then show ?thesis ..
qed

lemma order_loop_served:
  assumes code: "d ''CONST_HTTP_SUCCESS_CODE'' = Some (Val (PInt 200))"
    and broker: "d ''broker_endpoint'' = Some (Val (PStr broker))"
    and headers: "d ''headers'' = Some headers"
    and job: "d ''job_id'' = Some (Val job)"
  shows "list_all2 good_exchange results xs \<Longrightarrow> replies w = serve xs rest
    \<Longrightarrow> i = int (length order_ids)
    \<Longrightarrow> \<exists>w' response'.
          order_loop d results i order_ids order_sizes response w =
            Some (Inr (order_ids @ map (\<lambda>x. order_id_in (fst x)) xs,
                       order_sizes @ map size_in results, response'), w')
          \<and> replies w' = rest
          \<and> (response' = None \<longleftrightarrow> results = [] \<and> response = None)"
proof (induction results arbitrary: xs w i order_ids order_sizes response)
  case Nil
  then show ?case by simp
next
  case (Cons result results)
  from Cons.prems(1) obtain x xs' where
    xs: "xs = x # xs'" and good: "good_exchange result x"
    and rest: "list_all2 good_exchange results xs'"
    by (auto simp: list_all2_Cons1)
  obtain p qs where x: "x = (p, qs)" by (cases x)
  have as_str_Inr: "v = PStr t" if "as_str (Val v) = Inr t" for v t
    using that by (cases v) simp_all
  from good obtain uri where uri: "subscript result ''url'' = Inr uri"
    unfolding good_exchange_def by (cases "subscript result ''url''") simp_all
  from good obtain sz where sz: "subscript result ''size'' = Inr sz"
    unfolding good_exchange_def by (cases "subscript result ''size''") simp_all
  from good have p200: "status_code p = 200"
    and qs: "qs \<noteq> []" "list_all pending (butlast qs)" "completes (last qs)"
    unfolding good_exchange_def x by simp_all
  from good obtain v where v: "order_id_of p = Inr v" "is_Inr (as_str (Val v))"
    unfolding good_exchange_def x
    by (cases "order_id_of p") (simp_all add: bind_e_def)
  then obtain oid where oid: "order_id_of p = Inr (PStr oid)"
    by (cases "as_str (Val v)") (auto dest: as_str_Inr)
  have req: "order_request d result =
      Inr (PDict [(''jobId'', job), (''uri'', uri)], sz, broker @ ''/dataorder'', headers)"
    using broker headers job uri sz
    by (simp add: order_request_def bind_e_def getitem_def)
  define w1 where "w1 = snd (request POST (broker @ ''/dataorder'') headers
                               (Some (PDict [(''jobId'', job), (''uri'', uri)])) w)"
  have r1: "replies w1 = qs @- serve xs' rest"
    and s1: "fst (request POST (broker @ ''/dataorder'') headers
                               (Some (PDict [(''jobId'', job), (''uri'', uri)])) w) = p"
    using Cons.prems(2) by (simp_all add: w1_def request_def xs x)
  from get_order_status_completes [where d = d, OF code broker headers qs r1]
  obtain tr where
    st: "get_order_status d (PStr oid) w1 =
           Some (Inr (last qs), w1\<lparr>replies := serve xs' rest, trace := trace w1 @ tr\<rparr>)"
    by blast
  define w2 where "w2 = w1\<lparr>replies := serve xs' rest, trace := trace w1 @ tr\<rparr>"
  have idx: "py_index (order_ids @ [PStr oid]) i = Inr (PStr oid)"
    using Cons.prems(3) by (simp add: py_index_def)
  have step: "order_loop d (result # results) i order_ids order_sizes response w =
      order_loop d results (i + 1) (order_ids @ [PStr oid]) (order_sizes @ [sz])
        (Some (last qs)) w2"
    using req code p200 oid idx st s1
    by (simp add: order_id_of_def getitem_def bind_e_def split_beta w1_def w2_def)
  have r2: "replies w2 = serve xs' rest"
    by (simp add: w2_def)
  have i2: "i + 1 = int (length (order_ids @ [PStr oid]))"
    using Cons.prems(3) by simp
  from Cons.IH [OF rest r2 i2, of "order_sizes @ [sz]" "Some (last qs)"]
  obtain w' response' where
    run: "order_loop d results (i + 1) (order_ids @ [PStr oid]) (order_sizes @ [sz])
        (Some (last qs)) w2 =
       Some (Inr ((order_ids @ [PStr oid]) @ map (\<lambda>x. order_id_in (fst x)) xs',
                  (order_sizes @ [sz]) @ map size_in results, response'), w')"
    and r': "replies w' = rest"
    and n': "response' = None \<longleftrightarrow> results = [] \<and> Some (last qs) = None"
    by blast
  have ids: "order_id_in (fst x) = PStr oid" and szs: "size_in result = sz"
    using oid sz by (simp_all add: order_id_in_def size_in_def x)
  have "order_loop d (result # results) i order_ids order_sizes response w =
       Some (Inr (order_ids @ map (\<lambda>x. order_id_in (fst x)) xs,
                  order_sizes @ map size_in (result # results), response'), w')"
    unfolding step run by (simp add: xs ids szs)
  moreover have "response' = None \<longleftrightarrow> result # results = [] \<and> response = None"
    using n' by simp
  ultimately show ?case
    using r' by blast
qed

text \<open>
  C1. In a session with the job id, the broker address, the headers and the
  success code 200, whose results page lists \<open>K\<close> descriptors: when the order
  endpoint responds correctly to each (the exchanges \<open>xs\<close> are good, one per
  descriptor, and the broker's replies are those exchanges in order),
  \<^verbatim>\<open>get_order_ids\<close> stores under \<^verbatim>\<open>order_ids\<close> the order ids of the
  \<open>K\<close> order replies, in the order of the results, and under
  \<^verbatim>\<open>order_sizes\<close> the sizes of the \<open>K\<close> descriptors, in the same order:
  both lists have length \<open>K\<close>, and position \<open>i\<close> holds the id ordered for
  the \<open>i\<close>-th descriptor and that descriptor's size. The call returns
  normally unless the page is empty (then \<^verbatim>\<open>response\<close> is unbound at the
  last assignment, after both lists were stored).
\<close>

theorem get_order_ids_aligned:
  assumes "d ''CONST_HTTP_SUCCESS_CODE'' = Some (Val (PInt 200))"
    and "d ''broker_endpoint'' = Some (Val (PStr broker))"
    and "d ''headers'' = Some headers"
    and "d ''job_id'' = Some (Val job)"
    and "bind_e (bind_e (getitem d ''results'') (\<lambda>r. subscript_obj r ''content'')) iterate
           = Inr results"
    and "list_all2 good_exchange results xs"
    and "replies w = serve xs rest"
  shows "\<exists>res d' w'.
           get_order_ids d w = Some (res, d', w')
         \<and> d' ''order_ids'' = Some (Val (PList (map (\<lambda>x. order_id_in (fst x)) xs)))
         \<and> d' ''order_sizes'' = Some (Val (PList (map size_in results)))
         \<and> length (map (\<lambda>x. order_id_in (fst x)) xs) = length results
         \<and> length (map size_in results) = length results
         \<and> replies w' = rest
         \<and> (res = Inr () \<longleftrightarrow> results \<noteq> [])"
proof -
  from order_loop_served [where d = d and order_ids = "[]" and order_sizes = "[]"
      and response = None and i = 0, OF assms(1-4) assms(6,7)]
  obtain w' response' where
    run: "order_loop d results 0 [] [] None w =
            Some (Inr (map (\<lambda>x. order_id_in (fst x)) xs, map size_in results, response'), w')"
    and r': "replies w' = rest"
    and n': "response' = None \<longleftrightarrow> results = []"
    by auto
  have len: "length xs = length results"
    using assms(6) by (simp add: list_all2_lengthD)
  show ?thesis
  proof (cases response')
    case None
    with run assms(5) n' r' len show ?thesis
      by (simp add: get_order_ids_def)
  next
    case (Some r)
    with run assms(5) n' r' len show ?thesis
      by (simp add: get_order_ids_def)
  qed
qed

theorem get_order_ids_aligned_witness:
  "\<exists>res d' w'.
     get_order_ids
       (listed [descriptor ''a.nc'' 1000 ''u1'', descriptor ''b.nc'' 2000 ''u2''])
       (scenario [order_reply ''o1'', status_reply ''completed'',
                  order_reply ''o2'', reply 500 None, status_reply ''running'',
                  status_reply ''completed''] (reply 404 None))
       = Some (res, d', w')
     \<and> d' ''order_ids'' = Some (Val (PList [PStr ''o1'', PStr ''o2'']))
     \<and> d' ''order_sizes'' = Some (Val (PList [PInt 1000, PInt 2000]))
     \<and> res = Inr ()"
proof -
  let ?results = "[descriptor ''a.nc'' 1000 ''u1'', descriptor ''b.nc'' 2000 ''u2'']"
  let ?d = "listed ?results"
  let ?xs = "[(order_reply ''o1'', [status_reply ''completed'']),
              (order_reply ''o2'', [reply 500 None, status_reply ''running'',
                                    status_reply ''completed''])]"
  let ?w = "scenario [order_reply ''o1'', status_reply ''completed'',
                  order_reply ''o2'', reply 500 None, status_reply ''running'',
                  status_reply ''completed''] (reply 404 None)"
  have c: "?d ''CONST_HTTP_SUCCESS_CODE'' = Some (Val (PInt 200))"
    and b: "?d ''broker_endpoint'' = Some (Val (PStr broker_address))"
    and h: "?d ''headers'' = Some bearer"
    and j: "?d ''job_id'' = Some (Val (PStr ''j1''))"
    by (simp_all add: listed_def submitted_def logged_in_def init_def bearer_def)
  have l: "bind_e (bind_e (getitem ?d ''results'') (\<lambda>r. subscript_obj r ''content'')) iterate
           = Inr ?results"
    by (simp add: listed_def bind_e_def getitem_def)
  have oid: "order_id_of (order_reply s) = Inr (PStr s)" for s
    by (simp add: order_id_of_def order_reply_def reply_def loads_def bind_e_def)
  have g: "list_all2 good_exchange ?results ?xs"
    by (simp add: good_exchange_def descriptor_def oid bind_e_def
        pending_status_reply completes_status_reply pending_error_reply)
       (simp add: order_reply_def reply_def)
  have s: "replies ?w = serve ?xs (sconst (reply 404 None))"
    by (simp add: scenario_def)
  from get_order_ids_aligned [where d = "?d" and xs = "?xs", OF c b h j l g s]
  show ?thesis
    by (simp add: order_id_in_def oid size_in_def descriptor_def) blast
qed

text \<open>
  C4. A run of \<^verbatim>\<open>get_order_ids\<close> over two descriptors in which the first
  order request is answered with status 500 and the second with status 200 and
  the order id \<^verbatim>\<open>o2\<close>. The failed request does not stop the loop: the
  second request is sent. But \<^verbatim>\<open>i\<close> counts the results while
  \<^verbatim>\<open>order_ids\<close> holds the successful orders only, so
  \<^verbatim>\<open>order_ids[i]\<close> is out of range at the first success after a failure:
  the call ends with \<^verbatim>\<open>IndexError\<close>, and neither \<^verbatim>\<open>order_ids\<close> nor
  \<^verbatim>\<open>order_sizes\<close> is stored in the session.
\<close>

theorem get_order_ids_success_after_failure:
  "get_order_ids
     (listed [descriptor ''a.nc'' 1000 ''u1'', descriptor ''b.nc'' 2000 ''u2''])
     (scenario [reply 500 None, order_reply ''o2''] (status_reply ''completed''))
   = Some (Inl IndexError,
           listed [descriptor ''a.nc'' 1000 ''u1'', descriptor ''b.nc'' 2000 ''u2''],
           (scenario [reply 500 None, order_reply ''o2''] (status_reply ''completed''))
             \<lparr>replies := sconst (status_reply ''completed''),
               trace := [Request POST (broker_address @ ''/dataorder'') bearer
                           (Some (PDict [(''jobId'', PStr ''j1''), (''uri'', PStr ''u1'')])),
                         Request POST (broker_address @ ''/dataorder'') bearer
                           (Some (PDict [(''jobId'', PStr ''j1''), (''uri'', PStr ''u2'')]))]\<rparr>)
   \<and> listed [descriptor ''a.nc'' 1000 ''u1'', descriptor ''b.nc'' 2000 ''u2''] ''order_ids''
       = None
   \<and> listed [descriptor ''a.nc'' 1000 ''u1'', descriptor ''b.nc'' 2000 ''u2''] ''order_sizes''
       = None"
proof -
  let ?results = "[descriptor ''a.nc'' 1000 ''u1'', descriptor ''b.nc'' 2000 ''u2'']"
  let ?d = "listed ?results"
  have l: "bind_e (bind_e (getitem ?d ''results'') (\<lambda>r. subscript_obj r ''content'')) iterate
           = Inr ?results"
    by (simp add: listed_def bind_e_def getitem_def)
  have c: "getitem ?d ''CONST_HTTP_SUCCESS_CODE'' = Inr (Val (PInt 200))"
    by (simp add: listed_def submitted_def logged_in_def init_def getitem_def)
  have q: "order_request ?d (descriptor f n u) =
      Inr (PDict [(''jobId'', PStr ''j1''), (''uri'', PStr u)], PInt n,
           broker_address @ ''/dataorder'', bearer)" for f n u
    by (simp add: order_request_def listed_def submitted_def logged_in_def init_def
        bearer_def descriptor_def bind_e_def getitem_def)
  have o: "bind_e (loads (order_reply s)) (\<lambda>j. subscript j ''orderId'') = Inr (PStr s)" for s
    by (simp add: order_reply_def reply_def loads_def bind_e_def)
  have i: "py_index [PStr ''o2''] 1 = Inl IndexError"
    by (simp add: py_index_def)
  have "order_loop ?d ?results 0 [] [] None
          (scenario [reply 500 None, order_reply ''o2''] (status_reply ''completed''))
        = Some (Inl IndexError,
           (scenario [reply 500 None, order_reply ''o2''] (status_reply ''completed''))
             \<lparr>replies := sconst (status_reply ''completed''),
               trace := [Request POST (broker_address @ ''/dataorder'') bearer
                           (Some (PDict [(''jobId'', PStr ''j1''), (''uri'', PStr ''u1'')])),
                         Request POST (broker_address @ ''/dataorder'') bearer
                           (Some (PDict [(''jobId'', PStr ''j1''), (''uri'', PStr ''u2'')]))]\<rparr>)"
    by (simp add: q c o i request_def scenario_def Let_def)
       (simp add: reply_def order_reply_def bind_e_def)
  then show ?thesis
    by (simp add: get_order_ids_def l) (simp add: listed_def submitted_def logged_in_def init_def)
qed

section \<open>Properties of \<^verbatim>\<open>get_job_id\<close>\<close>

lemma poll_loop_sends:
  assumes ret: "poll_loop target d status count resp w = Some y"
    and tgt: "target = Inr (url, headers)"
  shows "sent GET (trace w) + (if status \<noteq> PStr ''completed'' then 1 else 0)
           \<le> sent GET (trace (snd y))"
proof -
  have "target = Inr (url, headers) \<longrightarrow>
          sent GET (trace w) + (if status \<noteq> PStr ''completed'' then 1 else 0)
            \<le> sent GET (trace (snd y))"
  proof (rule poll_loop.raw_induct
      [where P = "\<lambda>target d status count resp w y.
          target = Inr (url, headers) \<longrightarrow>
            sent GET (trace w) + (if status \<noteq> PStr ''completed'' then 1 else 0)
              \<le> sent GET (trace (snd y))", OF _ ret], goal_cases)
    case (1 f target d status count resp w y)
    show ?case
    proof
      assume tgt: "target = Inr (url, headers)"
      show "sent GET (trace w) + (if status \<noteq> PStr ''completed'' then 1 else 0)
              \<le> sent GET (trace (snd y))"
      proof (cases "status = PStr ''completed''")
        case True
        with "1"(2) show ?thesis by auto
      next
        case False
        define w1 where "w1 = snd (request GET url headers None
                                     (if 20 < count + 1 then sleep 5 w else w))"
        have s1: "sent GET (trace w1) = sent GET (trace w) + 1"
          by (simp add: w1_def request_def sleep_def log_def sent_def)
        show ?thesis
        proof (cases "read_status d (shd (replies w)) status")
          case (Inl e)
          with "1"(2) False tgt have "y = (Inl e, w1)"
            by (auto simp add: Let_def request_def sleep_def log_def w1_def split: if_splits)
          with s1 False show ?thesis by simp
        next
          case (Inr status')
          with "1"(2) False tgt
          have "f target d status' (count + 1) (Some (shd (replies w))) w1 = Some y"
            by (auto simp add: Let_def request_def sleep_def log_def w1_def split: if_splits)
          from "1"(1) [OF this] tgt s1 False show ?thesis
            by (simp split: if_splits)
        qed
      qed
    qed
  qed
  with tgt show ?thesis by blast
qed

lemma get_job_id_not_200:
  assumes "d ''broker_endpoint'' = Some (Val (PStr broker))"
    and "d ''headers'' = Some headers"
    and "d ''CONST_HTTP_SUCCESS_CODE'' = Some (Val (PInt 200))"
    and "status_code (shd (replies w)) \<noteq> 200"
  shows "get_job_id d data w =
           map_option (\<lambda>rw. (fst rw, d(''job_id'' \<mapsto> Val (PStr [])), snd rw))
             (get_request_status (d(''job_id'' \<mapsto> Val (PStr [])))
                (snd (request POST (broker @ ''/datarequest'') headers (Some data) w)))"
proof -
  have j: "job_id_of_response d (shd (replies w)) = Inr (PStr [])"
    using assms(3,4) by (simp add: job_id_of_response_def bind_e_def getitem_def)
  let ?g = "get_request_status (d(''job_id'' \<mapsto> Val (PStr [])))
              (snd (request POST (broker @ ''/datarequest'') headers (Some data) w))"
  have unfold: "get_job_id d data w =
      (case ?g of None \<Rightarrow> None
       | Some (Inl e, w') \<Rightarrow> Some (Inl e, d(''job_id'' \<mapsto> Val (PStr [])), w')
       | Some (Inr u, w') \<Rightarrow> Some (Inr (), d(''job_id'' \<mapsto> Val (PStr [])), w'))"
    using assms(1,2) j
    by (simp add: get_job_id_def bind_e_def getitem_def request_def Let_def)
  show ?thesis
  proof (cases ?g)
    case None
    then show ?thesis by (simp add: unfold)
  next
    case (Some y)
    then show ?thesis
      by (cases y; cases "fst y") (simp_all add: unfold)
  qed
qed

lemma get_request_status_empty_job:
  assumes "d ''broker_endpoint'' = Some (Val (PStr broker))"
    and "d ''headers'' = Some headers"
    and "d ''CONST_HTTP_SUCCESS_CODE'' = Some (Val (PInt 200))"
    and "\<forall>k<n. pending (replies w !! k)" and "completes (replies w !! n)"
  shows "get_request_status (d(''job_id'' \<mapsto> Val (PStr []))) w =
           Some (Inr (), w\<lparr>replies := sdrop (Suc n) (replies w),
                            trace := trace w @ polling (broker @ ''/datarequest/status/'')
                                                 headers 0 (Suc n)\<rparr>)"
proof -
  let ?d = "d(''job_id'' \<mapsto> Val (PStr []))"
  have t: "request_status_target ?d = Inr (broker @ ''/datarequest/status/'', headers)"
    using assms(1,2) by (simp add: request_status_target_def bind_e_def getitem_def)
  have c: "?d ''CONST_HTTP_SUCCESS_CODE'' = Some (Val (PInt 200))"
    using assms(3) by simp
  have "poll_loop (Inr (broker @ ''/datarequest/status/'', headers)) ?d
          (PStr ''not started'') 0 None w
        = Some (Inr (Some (replies w !! n)),
                w\<lparr>replies := sdrop (Suc n) (replies w),
                  trace := trace w @ polling (broker @ ''/datarequest/status/'') headers 0
                                       (Suc n)\<rparr>)"
    using poll_loop_runs [where d = "?d" and w = w and n = n
        and status = "PStr ''not started''", OF c _ assms(4,5)]
    by simp
  then show ?thesis
    by (simp add: get_request_status_def t del: polling.simps)
qed

text \<open>
  When the job submission is answered with a status other than 200,
  \<^verbatim>\<open>get_job_id\<close> stores the empty string as the job id and then calls
  \<^verbatim>\<open>get_request_status\<close> all the same: its outcome is that of polling
  \<^verbatim>\<open>/datarequest/status/\<close> with the empty id, so whenever it returns, at
  least one status poll was sent after the failed submission.
\<close>

lemma get_job_id_polls_after_failure:
  assumes "d ''broker_endpoint'' = Some (Val (PStr broker))"
    and "d ''headers'' = Some headers"
    and "d ''CONST_HTTP_SUCCESS_CODE'' = Some (Val (PInt 200))"
    and "status_code (shd (replies w)) \<noteq> 200"
  shows "get_job_id d data w =
           map_option (\<lambda>rw. (fst rw, d(''job_id'' \<mapsto> Val (PStr [])), snd rw))
             (get_request_status (d(''job_id'' \<mapsto> Val (PStr [])))
                (snd (request POST (broker @ ''/datarequest'') headers (Some data) w)))
       \<and> request_status_target (d(''job_id'' \<mapsto> Val (PStr [])))
           = Inr (broker @ ''/datarequest/status/'', headers)
       \<and> (\<forall>r d' w'. get_job_id d data w = Some (r, d', w') \<longrightarrow>
             d' ''job_id'' = Some (Val (PStr [])) \<and> sent GET (trace w) < sent GET (trace w'))"
proof -
  let ?d1 = "d(''job_id'' \<mapsto> Val (PStr []))"
  let ?w1 = "snd (request POST (broker @ ''/datarequest'') headers (Some data) w)"
  let ?url = "broker @ ''/datarequest/status/''"
  have eq: "get_job_id d data w =
      map_option (\<lambda>rw. (fst rw, ?d1, snd rw)) (get_request_status ?d1 ?w1)"
    using get_job_id_not_200 [where d = d and w = w and data = data, OF assms] .
  have tgt: "request_status_target ?d1 = Inr (?url, headers)"
    using assms(1,2) by (simp add: request_status_target_def bind_e_def getitem_def)
  have polled: "d' ''job_id'' = Some (Val (PStr [])) \<and> sent GET (trace w) < sent GET (trace w')"
    if ret: "get_job_id d data w = Some (r, d', w')" for r d' w'
  proof -
    from ret obtain r' where
      g: "get_request_status ?d1 ?w1 = Some (r', w')" and d': "d' = ?d1"
      unfolding eq by (cases "get_request_status ?d1 ?w1") auto
    obtain y where
      y: "poll_loop (Inr (?url, headers)) ?d1 (PStr ''not started'') 0 None ?w1 = Some y"
      using g unfolding get_request_status_def tgt
      by (cases "poll_loop (Inr (?url, headers)) ?d1 (PStr ''not started'') 0 None ?w1")
         simp_all
    have "snd y = w'"
      using g unfolding get_request_status_def tgt y
      by (cases y; cases "fst y") simp_all
    with poll_loop_sends [OF y refl]
    have "sent GET (trace ?w1) + 1 \<le> sent GET (trace w')" by simp
    moreover have "sent GET (trace ?w1) = sent GET (trace w)"
      by (simp add: request_def sent_def)
    ultimately show ?thesis
      using d' by simp
  qed
  show ?thesis
  proof (intro conjI allI impI)
    show "get_job_id d data w =
      map_option (\<lambda>rw. (fst rw, ?d1, snd rw)) (get_request_status ?d1 ?w1)"
      by (fact eq)
    show "request_status_target ?d1 = Inr (?url, headers)"
      by (fact tgt)
  next
    fix r d' w' assume "get_job_id d data w = Some (r, d', w')"
    then show "d' ''job_id'' = Some (Val (PStr []))"
      by (rule polled [THEN conjunct1])
  next
    fix r d' w' assume "get_job_id d data w = Some (r, d', w')"
    then show "sent GET (trace w) < sent GET (trace w')"
      by (rule polled [THEN conjunct2])
  qed
qed

text \<open>
  C7. A failed submission: the job-creation POST is answered with status 500.
  \<^verbatim>\<open>get_job_id\<close> stores the empty string as the job id, but it does not
  stop there: it polls the job status all the same (\<^verbatim>\<open>get_order_ids\<close>, by
  contrast, polls the status of an order only when the order request
  succeeded). The trace holds, after the POST, the GET of
  \<^verbatim>\<open>/datarequest/status/\<close> with the empty id, and the call returns because
  that poll is answered \<^verbatim>\<open>"completed"\<close>.
\<close>

theorem get_job_id_failed_submission:
  "get_job_id logged_in (PDict []) (scenario [reply 500 None] (status_reply ''completed''))
   = Some (Inr (), logged_in(''job_id'' \<mapsto> Val (PStr [])),
       (scenario [reply 500 None] (status_reply ''completed''))
         \<lparr>replies := sconst (status_reply ''completed''),
           trace := [Request POST (broker_address @ ''/datarequest'') bearer (Some (PDict [])),
                     Request GET (broker_address @ ''/datarequest/status/'') bearer None]\<rparr>)"
proof -
  let ?w = "scenario [reply 500 None] (status_reply ''completed'')"
  let ?url = "broker_address @ ''/datarequest/status/''"
  define w1 where
    "w1 = snd (request POST (broker_address @ ''/datarequest'') bearer (Some (PDict [])) ?w)"
  have b: "logged_in ''broker_endpoint'' = Some (Val (PStr broker_address))"
    and h: "logged_in ''headers'' = Some bearer"
    and c: "logged_in ''CONST_HTTP_SUCCESS_CODE'' = Some (Val (PInt 200))"
    by (simp_all add: logged_in_def init_def bearer_def)
  have s: "status_code (shd (replies ?w)) \<noteq> 200"
    by (simp add: scenario_def reply_def)
  have w1: "w1 = ?w\<lparr>replies := sconst (status_reply ''completed''),
      trace := [Request POST (broker_address @ ''/datarequest'') bearer (Some (PDict []))]\<rparr>"
    by (simp add: w1_def request_def scenario_def)
  have p: "\<forall>k<0. pending (replies w1 !! k)"
    by simp
  have e: "completes (replies w1 !! 0)"
    by (simp add: w1 completes_status_reply)
  have pol: "polling ?url bearer 0 (Suc 0) = [Request GET ?url bearer None]"
    by (simp add: poll_events_def)
  have g: "get_request_status (logged_in(''job_id'' \<mapsto> Val (PStr []))) w1 =
      Some (Inr (), ?w\<lparr>replies := sconst (status_reply ''completed''),
           trace := [Request POST (broker_address @ ''/datarequest'') bearer (Some (PDict [])),
                     Request GET ?url bearer None]\<rparr>)"
    unfolding get_request_status_empty_job [where d = logged_in and w = w1, OF b h c p e] pol
    by (simp add: w1)
  have "get_job_id logged_in (PDict []) ?w =
      map_option (\<lambda>rw. (fst rw, logged_in(''job_id'' \<mapsto> Val (PStr [])), snd rw))
        (get_request_status (logged_in(''job_id'' \<mapsto> Val (PStr []))) w1)"
    unfolding w1_def
    using get_job_id_not_200 [where d = logged_in and w = "?w" and data = "PDict []",
      OF b h c s] .
  then show ?thesis
    unfolding g by simp
qed

end
